theory Spec2Isabelle
  imports Complex_Main "HOL-Library.Multiset" "HOL-Library.Option_ord"
begin

section \<open>Python values used by \<^verbatim>\<open>analyse_logarchive.py\<close>\<close>

text \<open>
  A Python \<^verbatim>\<open>str\<close> is modelled as a \<^typ>\<open>string\<close>, each \<^typ>\<open>char\<close> standing for
  one code point below 256; text with code points from 256 on is outside the model.
  \<^verbatim>\<open>str.isdigit\<close> and \<^verbatim>\<open>str.isspace\<close> are written out for that range: besides the
  ASCII digits, Python counts the superscripts U+00B2, U+00B3 and U+00B9 as digits.
\<close>

definition isdigit :: "char \<Rightarrow> bool" where
  "isdigit c \<longleftrightarrow> c \<in> set ''0123456789'' \<or> c \<in> {CHR 0xB2, CHR 0xB3, CHR 0xB9}"

definition isspace :: "char \<Rightarrow> bool" where
  "isspace c \<longleftrightarrow>
     c \<in> {CHR 0x09, CHR 0x0A, CHR 0x0B, CHR 0x0C, CHR 0x0D, CHR 0x1C, CHR 0x1D, CHR 0x1E,
          CHR 0x1F, CHR 0x20, CHR 0x85, CHR 0xA0}"

text \<open>\<^verbatim>\<open>s.endswith(suffix)\<close>.\<close>

definition endswith :: "string \<Rightarrow> string \<Rightarrow> bool" where
  "endswith s suffix \<longleftrightarrow>
     length suffix \<le> length s \<and> drop (length s - length suffix) s = suffix"

text \<open>
  \<^verbatim>\<open>s.find(c, start)\<close> for a one-character \<^verbatim>\<open>c\<close>: the least index from \<^verbatim>\<open>start\<close> on
  at which \<^verbatim>\<open>c\<close> stands, and \<^verbatim>\<open>-1\<close> when there is none. A negative \<^verbatim>\<open>start\<close> counts
  from the end of the string, as Python's slice indices do.
\<close>

fun index_of :: "char \<Rightarrow> string \<Rightarrow> nat option" where
  "index_of c [] = None"
| "index_of c (x # xs) = (if x = c then Some 0 else map_option Suc (index_of c xs))"

definition py_find :: "string \<Rightarrow> char \<Rightarrow> int \<Rightarrow> int" where
  "py_find s c start =
     (let n = int (length s);
          i = (if start < 0 then max (start + n) 0 else start)
      in if n < i then - 1
         else (case index_of c (drop (nat i) s) of
                 None \<Rightarrow> - 1
               | Some k \<Rightarrow> i + int k))"

text \<open>\<^verbatim>\<open>s[i:j]\<close>, with Python's clipping of both bounds.\<close>

definition py_slice :: "string \<Rightarrow> int \<Rightarrow> int \<Rightarrow> string" where
  "py_slice s i j =
     (let n = int (length s);
          lo = (if i < 0 then max (i + n) 0 else min i n);
          hi = (if j < 0 then max (j + n) 0 else min j n)
      in take (nat (hi - lo)) (drop (nat lo) s))"

text \<open>The exceptions that can leave a function of the program.\<close>

datatype exn =
    TimeoutExpired
  | IndexError
  | KeyError
  | TypeError
  | Raised string  \<comment> \<open>any other exception of a library call, by its class name\<close>

text \<open>
  \<^verbatim>\<open>s.split()[0]\<close>: the first maximal run of characters that are not white space;
  \<^verbatim>\<open>IndexError\<close> when the string holds white space only.
\<close>

definition first_token :: "string \<Rightarrow> exn + string" where
  "first_token s =
     (case dropWhile isspace s of
        [] \<Rightarrow> Inl IndexError
      | c # cs \<Rightarrow> Inr (takeWhile (\<lambda>x. \<not> isspace x) (c # cs)))"

text \<open>\<^verbatim>\<open>s.strip()\<close>.\<close>

definition py_strip :: "string \<Rightarrow> string" where
  "py_strip s = rev (dropWhile isspace (rev (dropWhile isspace s)))"

text \<open>\<^verbatim>\<open>posixpath.join(a, b)\<close> of two components.\<close>

definition os_path_join :: "string \<Rightarrow> string \<Rightarrow> string" where
  "os_path_join a b =
     (if b \<noteq> [] \<and> hd b = CHR ''/'' then b
      else if a = [] \<or> last a = CHR ''/'' then a @ b
      else a @ ''/'' @ b)"

subsection \<open>Floats\<close>

text \<open>
  A Python \<^verbatim>\<open>float\<close> is an IEEE 754 binary64 number. It is modelled by the real number
  it stands for; every operation computes the exact result and rounds it to the nearest
  number with a 53-bit significand, ties to even (\<open>fl\<close>). Overflow, subnormal numbers,
  infinities and NaN are not modelled: the program divides byte counts and time
  differences by constants, far inside the normal range.
\<close>

definition round_half_even :: "real \<Rightarrow> int" where
  "round_half_even q =
     (let f = \<lfloor>q\<rfloor>; r = q - of_int f
      in if r < 1 / 2 then f else if 1 / 2 < r then f + 1 else if even f then f else f + 1)"

fun bit_length :: "nat \<Rightarrow> nat" where
  "bit_length n = (if n = 0 then 0 else Suc (bit_length (n div 2)))"

definition pow2 :: "int \<Rightarrow> real" where
  "pow2 k = (if 0 \<le> k then 2 ^ nat k else 1 / 2 ^ nat (- k))"

text \<open>The binary exponent of a non-zero number: \<open>pow2 (ilog2 x) \<le> \<bar>x\<bar> < pow2 (ilog2 x + 1)\<close>,
  which lemma \<open>ilog2_bounds\<close> below proves.\<close>

definition ilog2 :: "real \<Rightarrow> int" where
  "ilog2 x =
     (let a = \<bar>x\<bar>
      in if 1 \<le> a then int (bit_length (nat \<lfloor>a\<rfloor>)) - 1
         else let k = int (bit_length (nat \<lfloor>1 / a\<rfloor>)) - 1
              in if pow2 (- k) \<le> a then - k else - k - 1)"

definition fl :: "real \<Rightarrow> real" where
  "fl x = (if x = 0 then 0
           else let u = pow2 (ilog2 x - 52) in of_int (round_half_even (x / u)) * u)"

text \<open>\<^verbatim>\<open>x / y\<close> on floats (an \<^verbatim>\<open>int\<close> operand is converted first; the program's are
  small constants, converted exactly), and \<^verbatim>\<open>a / b\<close> on two \<^verbatim>\<open>int\<close>s, which Python
  rounds once, from the exact quotient.\<close>

definition fdiv :: "real \<Rightarrow> real \<Rightarrow> real" where
  "fdiv x y = fl (x / y)"

definition int_truediv :: "int \<Rightarrow> int \<Rightarrow> real" where
  "int_truediv a b = fl (of_int a / of_int b)"

text \<open>\<^verbatim>\<open>round(x, 2)\<close> on a float: the exact value of \<^verbatim>\<open>x\<close> is rounded to two decimals,
  ties to even, and the decimal is converted back to the nearest float.\<close>

definition py_round2 :: "real \<Rightarrow> real" where
  "py_round2 x = fl (of_int (round_half_even (x * 100)) / 100)"

subsection \<open>Dates\<close>

text \<open>
  A \<^verbatim>\<open>datetime\<close>: its calendar fields as microseconds on the proleptic time line, and
  the UTC offset of an aware value in microseconds (\<open>None\<close> for a naive one). A
  \<^verbatim>\<open>timedelta\<close> is its number of microseconds. Subtracting a naive from an aware value
  or the reverse raises \<^verbatim>\<open>TypeError\<close>.
\<close>

record datetime =
  wall_us :: int
  utcoffset_us :: "int option"

definition dt_sub :: "datetime \<Rightarrow> datetime \<Rightarrow> exn + int" where
  "dt_sub a b =
     (case (utcoffset_us a, utcoffset_us b) of
        (None, None) \<Rightarrow> Inr (wall_us a - wall_us b)
      | (Some x, Some y) \<Rightarrow> Inr ((wall_us a - x) - (wall_us b - y))
      | _ \<Rightarrow> Inl TypeError)"

text \<open>\<^verbatim>\<open>timedelta.total_seconds()\<close>: the microseconds divided by \<open>10\<^sup>6\<close>.\<close>

definition total_seconds :: "int \<Rightarrow> real" where
  "total_seconds td = int_truediv td 1000000"

subsection \<open>Dictionaries\<close>

text \<open>
  The \<^verbatim>\<open>defaultdict(int)\<close> of subsystem counts: an association list in insertion order,
  which is the order Python iterates a dictionary in.
\<close>

type_synonym counter = "(string \<times> int) list"

text \<open>\<^verbatim>\<open>counter[sub] += 1\<close>: a missing key is created with the value \<open>0\<close> first.\<close>

fun incr :: "counter \<Rightarrow> string \<Rightarrow> counter" where
  "incr [] sub = [(sub, 0 + 1)]"
| "incr ((k, v) # d) sub = (if k = sub then (k, v + 1) # d else (k, v) # incr d sub)"

text \<open>\<^verbatim>\<open>sorted(xs, key=key, reverse=True)\<close>: Python reverses the list, sorts it stably
  in ascending order, and reverses the result, so equal keys keep their order.\<close>

definition sorted_reverse :: "('a \<Rightarrow> 'k::linorder) \<Rightarrow> 'a list \<Rightarrow> 'a list" where
  "sorted_reverse key xs = rev (sort_key key (rev xs))"

section \<open>The environment of a run\<close>

text \<open>
  What the program reads from outside: its argument, the clock, the file system as it is
  after the extraction, the external \<^verbatim>\<open>log show\<close> process, the two timestamp parsers
  and the terminal. \<open>extract_tar_gz\<close> stands for the function of that name (a fresh
  temporary directory into which the archive is unpacked); \<open>log_show\<close> for
  \<^verbatim>\<open>subprocess.run([...], timeout=900).stdout.splitlines()\<close>; \<open>dateutil_parse\<close> is
  \<open>None\<close> when the \<^verbatim>\<open>dateutil\<close> package cannot be imported. \<open>os_walk p\<close> is the list
  that \<^verbatim>\<open>os.walk(p)\<close> yields: for each directory, from the top down, its path, the
  names of its subdirectories and the names of its files. \<open>isdir\<close>, \<open>isfile\<close> and
  \<open>getsize\<close> are the functions of \<^verbatim>\<open>os.path\<close>, \<open>now_stamp\<close> is
  \<^verbatim>\<open>datetime.now().strftime("%Y%m%d_%H%M%S")\<close>, \<open>open_w\<close> the exception that opening a
  file for writing raises, if any, and \<open>stdin_input\<close> what \<^verbatim>\<open>input\<close> returns or raises.
\<close>

record world =
  argv_input :: string
  now_stamp :: string
  extract_tar_gz :: "string \<Rightarrow> exn + string"
  os_walk :: "string \<Rightarrow> (string \<times> string list \<times> string list) list"
  isdir :: "string \<Rightarrow> bool"
  isfile :: "string \<Rightarrow> bool"
  getsize :: "string \<Rightarrow> nat"
  log_show :: "string \<Rightarrow> exn + string list"
  dateutil_parse :: "(string \<Rightarrow> exn + datetime) option"
  strptime :: "string \<Rightarrow> string \<Rightarrow> exn + datetime"
  open_w :: "string \<Rightarrow> exn option"
  stdin_input :: "exn + string"

text \<open>
  What the program prints with \<^verbatim>\<open>print\<close>: \<open>Error t\<close> is the line \<^verbatim>\<open>[ERROR] t\<close>, and
  \<open>TimestampParsingFailed t e\<close> the line of \<^verbatim>\<open>parse_time\<close> that names the text and the
  exception. The progress lines of \<^verbatim>\<open>vprint\<close> are not modelled.
\<close>

datatype message =
    Error string
  | TimestampParsingFailed string exn

section \<open>Archive locator\<close>

text \<open>
  \<^verbatim>\<open>find_logarchive_in_directory\<close>: the two nested loops, each leaving at the first hit.
\<close>

fun find_in_dirs :: "world \<Rightarrow> string \<Rightarrow> string list \<Rightarrow> string option" where
  "find_in_dirs w rootdir [] = None"
| "find_in_dirs w rootdir (d # dirs) =
     (if endswith d ''.logarchive''
      then let full_path = os_path_join rootdir d
           in if isdir w (os_path_join full_path ''Persist'') then Some full_path
              else find_in_dirs w rootdir dirs
      else find_in_dirs w rootdir dirs)"

fun find_in_walk :: "world \<Rightarrow> (string \<times> string list \<times> string list) list \<Rightarrow> string option" where
  "find_in_walk w [] = None"
| "find_in_walk w ((rootdir, dirs, files) # rest) =
     (case find_in_dirs w rootdir dirs of
        Some full_path \<Rightarrow> Some full_path
      | None \<Rightarrow> find_in_walk w rest)"

definition find_logarchive_in_directory :: "world \<Rightarrow> string \<Rightarrow> string option" where
  "find_logarchive_in_directory w base_dir = find_in_walk w (os_walk w base_dir)"

section \<open>Line analyzer\<close>

text \<open>The filter \<^verbatim>\<open>l and l[0].isdigit()\<close> of \<^verbatim>\<open>get_time_range\<close> and \<^verbatim>\<open>count_lines\<close>.\<close>

definition valid_line :: "string \<Rightarrow> bool" where
  "valid_line l = (case l of [] \<Rightarrow> False | c # _ \<Rightarrow> isdigit c)"

definition get_time_range :: "string list \<Rightarrow> string option \<times> string option" where
  "get_time_range lines =
     (let valid_lines = filter valid_line lines
      in if valid_lines = [] then (None, None)
         else (Some (hd valid_lines), Some (last valid_lines)))"

definition count_lines :: "string list \<Rightarrow> int" where
  "count_lines lines = int (length (filter valid_line lines))"

text \<open>One round of the loop of \<^verbatim>\<open>count_subsystems\<close>, and the loop.\<close>

definition tally_line :: "counter \<Rightarrow> string \<Rightarrow> counter" where
  "tally_line counter line =
     (let start = py_find line (CHR ''['') 0;
          stop = py_find line (CHR '']'') start
      in if start \<noteq> - 1 \<and> stop \<noteq> - 1
         then incr counter (py_slice line (start + 1) stop)
         else counter)"

definition count_subsystems :: "string list \<Rightarrow> counter" where
  "count_subsystems lines = foldl tally_line [] lines"

text \<open>
  \<^verbatim>\<open>parse_time\<close>: \<^verbatim>\<open>dateutil\<close>'s parser when the package is there (its exceptions are
  not caught), else \<^verbatim>\<open>strptime\<close> on the text before the first \<^verbatim>\<open>+\<close>, whose failure is
  printed and raised again.
\<close>

definition parse_time :: "world \<Rightarrow> string \<Rightarrow> message list \<times> (exn + datetime)" where
  "parse_time w t =
     (case dateutil_parse w of
        Some parse \<Rightarrow> ([], parse t)
      | None \<Rightarrow>
          (case strptime w (takeWhile (\<lambda>c. c \<noteq> CHR ''+'') t) ''%Y-%m-%d %H:%M:%S.%f'' of
             Inl e \<Rightarrow> ([TimestampParsingFailed t e], Inl e)
           | Inr d \<Rightarrow> ([], Inr d)))"

section \<open>Report writer\<close>

text \<open>
  The dictionary \<^verbatim>\<open>info\<close> that \<^verbatim>\<open>main\<close> builds, with its seven keys. A CSV file is
  modelled by the rows handed to \<^verbatim>\<open>csv.writer\<close>, each a list of cells that still carry
  the Python value written; the encoding of a row as text is the \<^verbatim>\<open>csv\<close> module's.
\<close>

record info =
  info_path :: string
  info_size :: real
  info_start :: string
  info_end :: string
  info_ttl :: real
  info_lines :: int
  info_subsystems :: counter

datatype cell = CStr string | CInt int | CFloat real

text \<open>The last loop of \<^verbatim>\<open>generate_csv\<close>; \<^verbatim>\<open>info['subsystems'][sub]\<close> raises
  \<^verbatim>\<open>KeyError\<close> on a key that is not in the dictionary.\<close>

fun subsystem_rows :: "counter \<Rightarrow> string list \<Rightarrow> exn + cell list list" where
  "subsystem_rows d [] = Inr []"
| "subsystem_rows d (sub # subs) =
     (case map_of d sub of
        None \<Rightarrow> Inl KeyError
      | Some n \<Rightarrow>
          (case subsystem_rows d subs of
             Inl e \<Rightarrow> Inl e
           | Inr rows \<Rightarrow> Inr ([CStr sub, CInt n] # rows)))"

definition generate_csv :: "info \<Rightarrow> exn + cell list list" where
  "generate_csv info =
     (let total_events = sum_list (map snd (info_subsystems info));
          size_mb = py_round2 (fdiv (info_size info) 1024);
          size_gb = py_round2 (fdiv size_mb 1024);
          ttl_hours = py_round2 (fdiv (info_ttl info) 60);
          ttl_days = py_round2 (fdiv ttl_hours 24)
      in case subsystem_rows (info_subsystems info)
                (sorted_reverse (map_of (info_subsystems info))
                   (map fst (info_subsystems info))) of
           Inl e \<Rightarrow> Inl e
         | Inr rows \<Rightarrow>
             Inr ([[CStr ''Field'', CStr ''Value''],
                   [CStr ''Logarchive Path'', CStr (info_path info)],
                   [CStr ''Size (KB)'', CFloat (info_size info)],
                   [CStr ''Size (MB)'', CFloat size_mb],
                   [CStr ''Size (GB)'', CFloat size_gb],
                   [CStr ''First Log Line'', CStr (info_start info)],
                   [CStr ''Last Log Line'', CStr (info_end info)],
                   [CStr ''TTL (min)'', CFloat (info_ttl info)],
                   [CStr ''TTL (hours)'', CFloat ttl_hours],
                   [CStr ''TTL (days)'', CFloat ttl_days],
                   [CStr ''Total Events'', CInt (info_lines info)],
                   [CStr ''Unique Subsystems'', CInt (int (length (info_subsystems info)))],
                   [],
                   [CStr ''Subsystem'', CStr ''Event Count'']] @ rows))"

section \<open>Driver\<close>

text \<open>\<^verbatim>\<open>extract_log_output\<close>: only the timeout is caught, printed and turned into \<^verbatim>\<open>[]\<close>.\<close>

definition extract_log_output :: "world \<Rightarrow> string \<Rightarrow> message list \<times> (exn + string list)" where
  "extract_log_output w path =
     (case log_show w path of
        Inr out \<Rightarrow> ([], Inr out)
      | Inl TimeoutExpired \<Rightarrow> ([Error (''Timeout while reading logarchive: '' @ path)], Inr [])
      | Inl e \<Rightarrow> ([], Inl e))"

definition get_dir_size_kb :: "world \<Rightarrow> string \<Rightarrow> real" where
  "get_dir_size_kb w path =
     (let total_size =
            sum_list
              (concat
                 (map (\<lambda>(dirpath, dirnames, filenames).
                         concat
                           (map (\<lambda>f. let fp = os_path_join dirpath f
                                      in if isfile w fp then [int (getsize w fp)] else [])
                              filenames))
                    (os_walk w path)))
      in py_round2 (int_truediv total_size 1024))"

text \<open>
  What a run leaves behind: the lines printed, the CSV file written (its name and rows),
  the directory removed at the end, and the exception that ended the run, if any.
\<close>

record outcome =
  printed :: "message list"
  csv_file :: "(string \<times> cell list list) option"
  removed :: "string option"
  raised :: "exn option"

definition abort :: "message list \<Rightarrow> outcome" where
  "abort msgs = \<lparr>printed = msgs, csv_file = None, removed = None, raised = None\<rparr>"

definition crash :: "message list \<Rightarrow> exn \<Rightarrow> outcome" where
  "crash msgs e = \<lparr>printed = msgs, csv_file = None, removed = None, raised = Some e\<rparr>"

text \<open>
  The end of \<^verbatim>\<open>main\<close>, after the CSV file is written: the question about the temporary
  directory. The answer counts as yes when, stripped and in lower case, it is \<^verbatim>\<open>y\<close>.
\<close>

definition cleanup ::
  "world \<Rightarrow> message list \<Rightarrow> string \<times> cell list list \<Rightarrow> string option \<Rightarrow> outcome" where
  "cleanup w msgs written temp_dir =
     (case temp_dir of
        None \<Rightarrow> \<lparr>printed = msgs, csv_file = Some written, removed = None, raised = None\<rparr>
      | Some t \<Rightarrow>
          if t = [] then \<lparr>printed = msgs, csv_file = Some written, removed = None, raised = None\<rparr>
          else (case stdin_input w of
                  Inl e \<Rightarrow>
                    \<lparr>printed = msgs, csv_file = Some written, removed = None, raised = Some e\<rparr>
                | Inr answer \<Rightarrow>
                    \<lparr>printed = msgs, csv_file = Some written,
                     removed = (if py_strip answer \<in> {''y'', ''Y''} then Some t else None),
                     raised = None\<rparr>))"

text \<open>
  \<^verbatim>\<open>main\<close> from the measuring of the archive on (the source's lines 157 to 192), for
  the archive path and the temporary directory that the first part settled on.
\<close>

definition analyse :: "world \<Rightarrow> string \<Rightarrow> string option \<Rightarrow> outcome" where
  "analyse w path temp_dir =
     (let size_kb = get_dir_size_kb w path
      in case extract_log_output w path of
           (m0, Inl e) \<Rightarrow> crash m0 e
         | (m0, Inr log_lines) \<Rightarrow>
             if log_lines = [] then abort (m0 @ [Error ''No valid log output returned.''])
             else
               (case get_time_range log_lines of
                  (Some start_line, Some end_line) \<Rightarrow>
                    if start_line = [] \<or> end_line = []
                    then abort (m0 @ [Error ''No valid timestamps found.''])
                    else
                      (case first_token end_line of
                         Inl e \<Rightarrow> crash m0 e
                       | Inr end_text \<Rightarrow>
                      (case parse_time w end_text of
                         (m1, Inl e) \<Rightarrow> crash (m0 @ m1) e
                       | (m1, Inr end_time) \<Rightarrow>
                      (case first_token start_line of
                         Inl e \<Rightarrow> crash (m0 @ m1) e
                       | Inr start_text \<Rightarrow>
                      (case parse_time w start_text of
                         (m2, Inl e) \<Rightarrow> crash (m0 @ m1 @ m2) e
                       | (m2, Inr start_time) \<Rightarrow>
                      (case dt_sub end_time start_time of
                         Inl e \<Rightarrow> crash (m0 @ m1 @ m2) e
                       | Inr delta \<Rightarrow>
                           (let ttl = py_round2 (fdiv (total_seconds delta) 60);
                                info = \<lparr>info_path = path, info_size = size_kb,
                                        info_start = start_line, info_end = end_line,
                                        info_ttl = ttl, info_lines = count_lines log_lines,
                                        info_subsystems = count_subsystems log_lines\<rparr>;
                                csv_output = ''log_report_'' @ now_stamp w @ ''.csv''
                            in case open_w w csv_output of
                                 Some e \<Rightarrow> crash (m0 @ m1 @ m2) e
                               | None \<Rightarrow>
                                   (case generate_csv info of
                                      Inl e \<Rightarrow> crash (m0 @ m1 @ m2) e
                                    | Inr rows \<Rightarrow>
                                        cleanup w (m0 @ m1 @ m2) (csv_output, rows) temp_dir)))))))
                | _ \<Rightarrow> abort (m0 @ [Error ''No valid timestamps found.''])))"

text \<open>
  The first part of \<^verbatim>\<open>main\<close> (the source's lines 131 to 155): the four cases of the
  input path. It ends the run (\<open>Inl\<close>) or settles on the archive path and on the
  temporary directory, if one was made (\<open>Inr\<close>). \<^verbatim>\<open>if not path\<close> and \<^verbatim>\<open>if detected\<close>
  take \<^verbatim>\<open>None\<close> and the empty string alike.
\<close>

definition locate_archive :: "world \<Rightarrow> outcome + string \<times> string option" where
  "locate_archive w =
     (let path = argv_input w
      in if endswith path ''.tar.gz''
         then (case extract_tar_gz w path of
                 Inl e \<Rightarrow> Inl (crash [] e)
               | Inr temp_dir \<Rightarrow>
                   (case find_logarchive_in_directory w temp_dir of
                      None \<Rightarrow> Inl (abort [Error ''No .logarchive found in sysdiagnose.''])
                    | Some found \<Rightarrow>
                        if found = []
                        then Inl (abort [Error ''No .logarchive found in sysdiagnose.''])
                        else Inr (found, Some temp_dir)))
         else if endswith path ''.logarchive'' \<and> isdir w path then Inr (path, None)
         else if isdir w path
         then (case find_logarchive_in_directory w path of
                 None \<Rightarrow> Inl (abort [Error ''No .logarchive found in directory.''])
               | Some detected \<Rightarrow>
                   if detected = []
                   then Inl (abort [Error ''No .logarchive found in directory.''])
                   else Inr (detected, None))
         else Inl (abort [Error ''Invalid input: must be .logarchive, directory, or .tar.gz'']))"

definition main :: "world \<Rightarrow> outcome" where
  "main w =
     (case locate_archive w of
        Inl stopped \<Rightarrow> stopped
      | Inr (path, temp_dir) \<Rightarrow> analyse w path temp_dir)"

section \<open>The properties in the words of the specification\<close>

text \<open>
  The subsystem label of a line, as the specification words it: the text strictly
  between the first \<^verbatim>\<open>[\<close> of the line and the first \<^verbatim>\<open>]\<close> after it, when the line
  has both.
\<close>

definition bracket_label :: "string \<Rightarrow> string option" where
  "bracket_label l =
     (case dropWhile (\<lambda>c. c \<noteq> CHR ''['') l of
        [] \<Rightarrow> None
      | _ # r \<Rightarrow> if CHR '']'' \<in> set r then Some (takeWhile (\<lambda>c. c \<noteq> CHR '']'') r) else None)"

section \<open>Subsystem tally\<close>

lemma index_of_eq:
  "index_of c xs = (if c \<in> set xs then Some (length (takeWhile (\<lambda>x. x \<noteq> c) xs)) else None)"
  by (induction xs) auto

lemma dropWhile_neq_Cons:
  "c \<in> set xs \<Longrightarrow> \<exists>r. dropWhile (\<lambda>x. x \<noteq> c) xs = c # r"
  by (induction xs) auto

lemma dropWhile_neq_hd: "dropWhile (\<lambda>x. x \<noteq> c) xs = y # r \<Longrightarrow> y = c"
  by (induction xs) (auto split: if_splits)

lemma tally_line_label:
  "tally_line counter line = (case bracket_label line of None \<Rightarrow> counter | Some s \<Rightarrow> incr counter s)"
proof (cases "CHR ''['' \<in> set line")
  case False
  then have "dropWhile (\<lambda>c. c \<noteq> CHR ''['') line = []" by auto
  with False show ?thesis
    unfolding tally_line_def bracket_label_def py_find_def index_of_eq
    by (simp only: list.case option.case) simp
next
  case True
  define pre where "pre = takeWhile (\<lambda>c. c \<noteq> CHR ''['') line"
  from dropWhile_neq_Cons [OF True]
  obtain r where r: "dropWhile (\<lambda>c. c \<noteq> CHR ''['') line = CHR ''['' # r" ..
  have line: "line = pre @ CHR ''['' # r"
    using r takeWhile_dropWhile_id [of "\<lambda>c. c \<noteq> CHR ''[''" line] by (simp add: pre_def)
  have start: "py_find line (CHR ''['') 0 = int (length pre)"
    using True by (simp add: py_find_def index_of_eq pre_def)
  have dr: "drop (length pre) line = CHR ''['' # r" by (simp add: line)
  show ?thesis
  proof (cases "CHR '']'' \<in> set r")
    case False
    then have "py_find line (CHR '']'') (int (length pre)) = - 1"
      by (simp add: py_find_def dr index_of_eq) (simp add: line index_of_eq)
    with False r start show ?thesis
      by (simp add: tally_line_def bracket_label_def)
  next
    case True
    define lab where "lab = takeWhile (\<lambda>c. c \<noteq> CHR '']'') r"
    have stop: "py_find line (CHR '']'') (int (length pre)) = int (length pre) + 1 + int (length lab)"
      using True by (simp add: py_find_def dr index_of_eq lab_def) (simp add: line index_of_eq)
    have len: "length lab \<le> length r" by (simp add: lab_def length_takeWhile_le)
    have "take (length lab) r = lab"
      unfolding lab_def by (induction r) auto
    then have "py_slice line (int (length pre) + 1) (int (length pre) + 1 + int (length lab)) = lab"
      using len by (simp add: py_slice_def line Let_def min_def nat_add_distrib)
    with True r start stop show ?thesis
      by (simp add: tally_line_def bracket_label_def lab_def Let_def)
  qed
qed

lemma bracket_label_iff:
  "bracket_label l = Some s \<longleftrightarrow>
     (\<exists>pre post. l = pre @ ''['' @ s @ '']'' @ post \<and> CHR ''['' \<notin> set pre \<and> CHR '']'' \<notin> set s)"
proof
  assume a: "bracket_label l = Some s"
  then obtain x r where r: "dropWhile (\<lambda>c. c \<noteq> CHR ''['') l = x # r"
    and in_r: "CHR '']'' \<in> set r" and s: "s = takeWhile (\<lambda>c. c \<noteq> CHR '']'') r"
    by (auto simp: bracket_label_def split: list.splits if_splits)
  have x: "x = CHR ''[''" using r by (rule dropWhile_neq_hd)
  from dropWhile_neq_Cons [OF in_r]
  obtain post where post: "dropWhile (\<lambda>c. c \<noteq> CHR '']'') r = CHR '']'' # post" ..
  have "l = takeWhile (\<lambda>c. c \<noteq> CHR ''['') l @ ''['' @ s @ '']'' @ post"
    using r x post s takeWhile_dropWhile_id [of "\<lambda>c. c \<noteq> CHR ''[''" l]
      takeWhile_dropWhile_id [of "\<lambda>c. c \<noteq> CHR '']''" r] by simp
  moreover have "CHR ''['' \<notin> set (takeWhile (\<lambda>c. c \<noteq> CHR ''['') l)"
    by (auto dest: set_takeWhileD)
  moreover have "CHR '']'' \<notin> set s" unfolding s by (auto dest: set_takeWhileD)
  ultimately show "\<exists>pre post. l = pre @ ''['' @ s @ '']'' @ post \<and> CHR ''['' \<notin> set pre \<and> CHR '']'' \<notin> set s"
    by blast
next
  assume "\<exists>pre post. l = pre @ ''['' @ s @ '']'' @ post \<and> CHR ''['' \<notin> set pre \<and> CHR '']'' \<notin> set s"
  then obtain pre post where l: "l = pre @ ''['' @ s @ '']'' @ post"
    and pre: "CHR ''['' \<notin> set pre" and s: "CHR '']'' \<notin> set s" by blast
  have "dropWhile (\<lambda>c. c \<noteq> CHR ''['') l = CHR ''['' # s @ '']'' @ post"
    using pre by (auto simp: l dropWhile_append3)
  moreover have "takeWhile (\<lambda>c. c \<noteq> CHR '']'') (s @ '']'' @ post) = s"
    using s by (auto simp: takeWhile_tail)
  ultimately show "bracket_label l = Some s"
    by (simp add: bracket_label_def)
qed

lemma map_of_incr:
  "map_of (incr d k) = (map_of d)(k \<mapsto> (case map_of d k of None \<Rightarrow> 1 | Some v \<Rightarrow> v + 1))"
  by (induction d k rule: incr.induct) (auto simp: fun_eq_iff)

lemma keys_incr:
  "map fst (incr d k) = (if k \<in> set (map fst d) then map fst d else map fst d @ [k])"
  by (induction d k rule: incr.induct) auto

lemma distinct_incr: "distinct (map fst d) \<Longrightarrow> distinct (map fst (incr d k))"
  by (simp add: keys_incr)

lemma distinct_tally_line: "distinct (map fst d) \<Longrightarrow> distinct (map fst (tally_line d l))"
  by (cases "bracket_label l") (simp_all add: tally_line_label distinct_incr)

lemma distinct_foldl_tally:
  "distinct (map fst d) \<Longrightarrow> distinct (map fst (foldl tally_line d lines))"
  by (induction lines arbitrary: d) (simp_all add: distinct_tally_line)

lemma map_of_tally_line:
  "map_of (tally_line d l) s =
     (if bracket_label l = Some s
      then Some ((case map_of d s of None \<Rightarrow> 0 | Some v \<Rightarrow> v) + 1)
      else map_of d s)"
  by (cases "bracket_label l") (auto simp: tally_line_label map_of_incr split: option.splits)

lemma map_of_foldl_tally:
  "map_of (foldl tally_line d lines) s =
     (let n = length (filter (\<lambda>l. bracket_label l = Some s) lines)
      in if n = 0 then map_of d s
         else Some ((case map_of d s of None \<Rightarrow> 0 | Some v \<Rightarrow> v) + int n))"
proof (induction lines arbitrary: d)
  case Nil
  then show ?case by simp
next
  case (Cons l lines)
  have "map_of (foldl tally_line d (l # lines)) s = map_of (foldl tally_line (tally_line d l) lines) s"
    by simp
  also have "\<dots> = (let n = length (filter (\<lambda>l. bracket_label l = Some s) lines)
      in if n = 0 then map_of (tally_line d l) s
         else Some ((case map_of (tally_line d l) s of None \<Rightarrow> 0 | Some v \<Rightarrow> v) + int n))"
    by (rule Cons.IH)
  also have "\<dots> = (let n = length (filter (\<lambda>l. bracket_label l = Some s) (l # lines))
      in if n = 0 then map_of d s
         else Some ((case map_of d s of None \<Rightarrow> 0 | Some v \<Rightarrow> v) + int n))"
    by (simp add: map_of_tally_line Let_def split: option.splits)
  finally show ?case .
qed

lemma tally_line_no_label: "bracket_label l = None \<Longrightarrow> tally_line d l = d"
  by (simp add: tally_line_label)

lemma bracket_label_first:
  "CHR ''['' \<notin> set pre \<Longrightarrow> CHR '']'' \<notin> set s \<Longrightarrow>
   bracket_label (pre @ ''['' @ s @ '']'' @ post) = Some s"
  unfolding bracket_label_iff by blast

text \<open>
  C1. The tally of \<^verbatim>\<open>count_subsystems\<close> has each label once, and maps a label to the
  number of lines whose first \<^verbatim>\<open>[\<close> is followed by a later \<^verbatim>\<open>]\<close> with that label
  strictly between the two; a label that no line has is not a key. A line without such
  a pair changes nothing. Three lines whose first bracket pairs are \<^verbatim>\<open>[A]\<close>, \<^verbatim>\<open>[B]\<close>
  and \<^verbatim>\<open>[A]\<close> give the tally \<^verbatim>\<open>{A: 2, B: 1}\<close>.
\<close>

theorem count_subsystems_tally:
  "distinct (map fst (count_subsystems lines)) \<and>
   map_of (count_subsystems lines) s =
     (if filter (\<lambda>l. bracket_label l = Some s) lines = [] then None
      else Some (int (length (filter (\<lambda>l. bracket_label l = Some s) lines)))) \<and>
   (bracket_label l = Some s \<longleftrightarrow>
      (\<exists>pre post. l = pre @ ''['' @ s @ '']'' @ post \<and>
                  CHR ''['' \<notin> set pre \<and> CHR '']'' \<notin> set s)) \<and>
   (bracket_label l = None \<longrightarrow>
      count_subsystems (before @ l # after) = count_subsystems (before @ after)) \<and>
   (CHR ''['' \<notin> set p1 \<and> CHR ''['' \<notin> set p2 \<and> CHR ''['' \<notin> set p3 \<longrightarrow>
      count_subsystems [p1 @ ''[A]'' @ q1, p2 @ ''[B]'' @ q2, p3 @ ''[A]'' @ q3] =
        [(''A'', 2), (''B'', 1)])"
proof (intro conjI impI)
  show "distinct (map fst (count_subsystems lines))"
    by (simp add: count_subsystems_def distinct_foldl_tally)
  show "map_of (count_subsystems lines) s =
     (if filter (\<lambda>l. bracket_label l = Some s) lines = [] then None
      else Some (int (length (filter (\<lambda>l. bracket_label l = Some s) lines))))"
    by (simp add: count_subsystems_def map_of_foldl_tally Let_def)
  show "bracket_label l = Some s \<longleftrightarrow>
      (\<exists>pre post. l = pre @ ''['' @ s @ '']'' @ post \<and>
                  CHR ''['' \<notin> set pre \<and> CHR '']'' \<notin> set s)"
    by (rule bracket_label_iff)
next
  assume "bracket_label l = None"
  then show "count_subsystems (before @ l # after) = count_subsystems (before @ after)"
    by (simp add: count_subsystems_def tally_line_no_label)
next
  assume a: "CHR ''['' \<notin> set p1 \<and> CHR ''['' \<notin> set p2 \<and> CHR ''['' \<notin> set p3"
  have "bracket_label (p1 @ ''['' @ ''A'' @ '']'' @ q1) = Some ''A''"
    "bracket_label (p2 @ ''['' @ ''B'' @ '']'' @ q2) = Some ''B''"
    "bracket_label (p3 @ ''['' @ ''A'' @ '']'' @ q3) = Some ''A''"
    using a bracket_label_first [of p1 "''A''" q1] bracket_label_first [of p2 "''B''" q2]
      bracket_label_first [of p3 "''A''" q3] by simp_all
  then have "tally_line d (p1 @ ''[A]'' @ q1) = incr d ''A''"
    "tally_line d (p2 @ ''[B]'' @ q2) = incr d ''B''"
    "tally_line d (p3 @ ''[A]'' @ q3) = incr d ''A''" for d
    by (simp_all add: tally_line_label)
  then show "count_subsystems [p1 @ ''[A]'' @ q1, p2 @ ''[B]'' @ q2, p3 @ ''[A]'' @ q3] =
        [(''A'', 2), (''B'', 1)]"
    by (simp add: count_subsystems_def)
qed

theorem count_subsystems_tally_witness:
  "count_subsystems
     [''2024-01-01 00:00:00.000 host kernel[A]: boot'',
      ''2024-01-01 00:00:01.000 host sshd[B]: login [A]'',
      ''[A]''] = [(''A'', 2), (''B'', 1)] \<and>
   map_of (count_subsystems
     [''2024-01-01 00:00:00.000 host kernel[A]: boot'', ''no bracket'', ''x]y[B'',
      ''2024-01-01 00:00:01.000 host sshd[B]: login [A]'',
      ''[A]'']) ''A'' = Some 2 \<and>
   bracket_label ''x]y[B'' = None \<and>
   count_subsystems ([''[A]''] @ ''x]y[B'' # [''[B]'']) = count_subsystems ([''[A]''] @ [''[B]''])"
  using count_subsystems_tally [of
      "[''2024-01-01 00:00:00.000 host kernel[A]: boot'', ''no bracket'', ''x]y[B'',
        ''2024-01-01 00:00:01.000 host sshd[B]: login [A]'', ''[A]'']"
      "''A''" "''x]y[B''" "[''[A]'']" "[''[B]'']"
      "''2024-01-01 00:00:00.000 host kernel''" "''2024-01-01 00:00:01.000 host sshd''" "[]"
      "'': boot''" "'': login [A]''" "[]"]
  by (simp add: bracket_label_def)

section \<open>The driver, step by step\<close>

lemma csv_file_abort [simp]: "csv_file (abort msgs) = None"
  by (simp add: abort_def)

lemma csv_file_crash [simp]: "csv_file (crash msgs e) = None"
  by (simp add: crash_def)

lemma csv_file_cleanup [simp]: "csv_file (cleanup w msgs written temp_dir) = Some written"
  by (simp add: cleanup_def split: option.splits sum.splits)

lemma extract_log_output_Inr:
  "log_show w path = Inr out \<Longrightarrow> extract_log_output w path = ([], Inr out)"
  by (simp add: extract_log_output_def)

lemma extract_log_output_timeout:
  "log_show w path = Inl TimeoutExpired \<Longrightarrow>
   extract_log_output w path = ([Error (''Timeout while reading logarchive: '' @ path)], Inr [])"
  by (simp add: extract_log_output_def)

lemma extract_log_output_exn:
  "log_show w path = Inl e \<Longrightarrow> e \<noteq> TimeoutExpired \<Longrightarrow>
   extract_log_output w path = ([], Inl e)"
  by (cases e) (simp_all add: extract_log_output_def)

lemma analyse_written:
  assumes "csv_file (analyse w path temp_dir) = Some (name, rows)"
  shows "\<exists>log_lines start_line end_line end_text start_text end_time start_time delta m1 m2.
      log_show w path = Inr log_lines \<and> log_lines \<noteq> [] \<and>
      get_time_range log_lines = (Some start_line, Some end_line) \<and>
      first_token end_line = Inr end_text \<and> parse_time w end_text = (m1, Inr end_time) \<and>
      first_token start_line = Inr start_text \<and> parse_time w start_text = (m2, Inr start_time) \<and>
      dt_sub end_time start_time = Inr delta \<and>
      name = ''log_report_'' @ now_stamp w @ ''.csv'' \<and>
      generate_csv \<lparr>info_path = path, info_size = get_dir_size_kb w path,
         info_start = start_line, info_end = end_line,
         info_ttl = py_round2 (fdiv (total_seconds delta) 60),
         info_lines = count_lines log_lines,
         info_subsystems = count_subsystems log_lines\<rparr> = Inr rows"
proof (cases "log_show w path")
  case (Inl e)
  then have "csv_file (analyse w path temp_dir) = None"
    by (cases "e = TimeoutExpired")
      (simp_all add: analyse_def extract_log_output_timeout extract_log_output_exn)
  with assms show ?thesis by simp
next
  case (Inr log_lines)
  with assms show ?thesis
    by (auto simp: analyse_def extract_log_output_Inr Let_def
        split: sum.splits option.splits prod.splits if_splits)
qed


lemma fl_0 [simp]: "fl 0 = 0"
  by (simp add: fl_def)

lemma py_round2_0 [simp]: "py_round2 0 = 0"
  by (simp add: py_round2_def round_half_even_def)

lemma fdiv_0 [simp]: "fdiv 0 y = 0"
  by (simp add: fdiv_def)

lemma total_seconds_0 [simp]: "total_seconds 0 = 0"
  by (simp add: total_seconds_def int_truediv_def)

section \<open>A run on a small archive\<close>

text \<open>
  A concrete environment: a \<^verbatim>\<open>.logarchive\<close> directory with two files, a rendering of
  five lines of which three begin with a timestamp, and a \<^verbatim>\<open>dateutil\<close> that reads the
  text \<^verbatim>\<open>2024-01-01\<close>. The later examples change one field of it at a time.
\<close>

definition demo_lines :: "string list" where
  "demo_lines =
     [''Timestamp                       (process)[PID]'',
      ''2024-01-01 00:00:00.000 host kernel[0]: boot'',
      ''2024-01-01 00:45:00.000 host sshd[71]: login'',
      ''     continuation of the line before'',
      ''2024-01-01 01:30:00.000 host kernel[0]: halt'']"

definition demo_world :: world where
  "demo_world =
     \<lparr>argv_input = ''/tmp/system_logs.logarchive'',
      now_stamp = ''20240102_120000'',
      extract_tar_gz = (\<lambda>p. Inl (Raised ''ReadError'')),
      os_walk = (\<lambda>p. if p = ''/tmp/system_logs.logarchive''
                      then [(p, [''Persist''], [''Info.plist'']),
                            (p @ ''/Persist'', [], [''0000000000000001.tracev3''])]
                      else []),
      isdir = (\<lambda>p. p = ''/tmp/system_logs.logarchive'' \<or> p = ''/tmp/system_logs.logarchive/Persist''),
      isfile = (\<lambda>p. p = ''/tmp/system_logs.logarchive/Info.plist'' \<or>
                     p = ''/tmp/system_logs.logarchive/Persist/0000000000000001.tracev3''),
      getsize = (\<lambda>p. if p = ''/tmp/system_logs.logarchive/Info.plist'' then 1024 else 3072),
      log_show = (\<lambda>p. Inr demo_lines),
      dateutil_parse =
        Some (\<lambda>t. if t = ''2024-01-01''
                  then Inr \<lparr>wall_us = 63839750400000000, utcoffset_us = None\<rparr>
                  else Inl (Raised ''ParserError'')),
      strptime = (\<lambda>t f. Inl (Raised ''ValueError'')),
      open_w = (\<lambda>p. None),
      stdin_input = Inr ''n''\<rparr>"

lemma float_4096_1024: "py_round2 (int_truediv 4096 1024) = 4"
  by (simp add: int_truediv_def py_round2_def fl_def ilog2_def pow2_def round_half_even_def Let_def)

lemma demo_size: "get_dir_size_kb demo_world ''/tmp/system_logs.logarchive'' = 4"
proof -
  have "get_dir_size_kb demo_world ''/tmp/system_logs.logarchive'' = py_round2 (int_truediv 4096 1024)"
    by (simp add: get_dir_size_kb_def demo_world_def os_path_join_def)
  then show ?thesis by (simp only: float_4096_1024)
qed

lemma demo_tally: "count_subsystems demo_lines = [(''PID'', 1), (''0'', 2), (''71'', 1)]"
  by (simp add: count_subsystems_def demo_lines_def tally_line_def py_find_def py_slice_def)

lemma demo_range:
  "get_time_range demo_lines =
     (Some ''2024-01-01 00:00:00.000 host kernel[0]: boot'',
      Some ''2024-01-01 01:30:00.000 host kernel[0]: halt'')"
  by (simp add: get_time_range_def demo_lines_def valid_line_def isdigit_def)

lemma demo_count: "count_lines demo_lines = 3"
  by (simp add: count_lines_def demo_lines_def valid_line_def isdigit_def)

lemma demo_tokens:
  "first_token ''2024-01-01 00:00:00.000 host kernel[0]: boot'' = Inr ''2024-01-01''"
  "first_token ''2024-01-01 01:30:00.000 host kernel[0]: halt'' = Inr ''2024-01-01''"
  by (simp_all add: first_token_def isspace_def)


lemma float_4_1024: "py_round2 (fdiv 4 1024) = 0"
  by (simp add: fdiv_def py_round2_def fl_def ilog2_def pow2_def round_half_even_def Let_def)

definition demo_rows :: "cell list list" where
  "demo_rows =
     [[CStr ''Field'', CStr ''Value''],
      [CStr ''Logarchive Path'', CStr ''/tmp/system_logs.logarchive''],
      [CStr ''Size (KB)'', CFloat 4],
      [CStr ''Size (MB)'', CFloat 0],
      [CStr ''Size (GB)'', CFloat 0],
      [CStr ''First Log Line'', CStr ''2024-01-01 00:00:00.000 host kernel[0]: boot''],
      [CStr ''Last Log Line'', CStr ''2024-01-01 01:30:00.000 host kernel[0]: halt''],
      [CStr ''TTL (min)'', CFloat 0],
      [CStr ''TTL (hours)'', CFloat 0],
      [CStr ''TTL (days)'', CFloat 0],
      [CStr ''Total Events'', CInt 3],
      [CStr ''Unique Subsystems'', CInt 3],
      [],
      [CStr ''Subsystem'', CStr ''Event Count''],
      [CStr ''0'', CInt 2],
      [CStr ''PID'', CInt 1],
      [CStr ''71'', CInt 1]]"

lemma demo_csv:
  "generate_csv \<lparr>info_path = ''/tmp/system_logs.logarchive'', info_size = 4,
       info_start = ''2024-01-01 00:00:00.000 host kernel[0]: boot'',
       info_end = ''2024-01-01 01:30:00.000 host kernel[0]: halt'',
       info_ttl = 0, info_lines = 3,
       info_subsystems = [(''PID'', 1), (''0'', 2), (''71'', 1)]\<rparr> = Inr demo_rows"
  by (simp add: generate_csv_def float_4_1024 sorted_reverse_def demo_rows_def)

lemma demo_locate: "locate_archive demo_world = Inr (''/tmp/system_logs.logarchive'', None)"
  by (simp add: locate_archive_def demo_world_def endswith_def)

lemma demo_parse:
  "parse_time demo_world ''2024-01-01'' =
     ([], Inr \<lparr>wall_us = 63839750400000000, utcoffset_us = None\<rparr>)"
  by (simp add: parse_time_def demo_world_def)

lemma demo_run:
  "main demo_world =
     \<lparr>printed = [], csv_file = Some (''log_report_20240102_120000.csv'', demo_rows),
      removed = None, raised = None\<rparr>"
proof -
  have "log_show demo_world ''/tmp/system_logs.logarchive'' = Inr demo_lines"
    "open_w demo_world ''log_report_20240102_120000.csv'' = None"
    "now_stamp demo_world = ''20240102_120000''"
    by (simp_all add: demo_world_def)
  moreover have "demo_lines \<noteq> []" by (simp add: demo_lines_def)
  ultimately show ?thesis
    by (simp add: main_def demo_locate analyse_def extract_log_output_Inr demo_size demo_range
        demo_tokens demo_parse dt_sub_def demo_count demo_tally demo_csv cleanup_def)
qed

section \<open>Counting lines and the time range\<close>

lemma locate_archive_stopped:
  "locate_archive w = Inl stopped \<Longrightarrow>
     csv_file stopped = None \<and> removed stopped = None \<and>
     (\<exists>msgs. stopped = abort msgs \<or> (\<exists>e. stopped = crash msgs e))"
  by (auto simp: locate_archive_def Let_def abort_def crash_def split: if_splits sum.splits option.splits)

lemma main_written:
  assumes "csv_file (main w) = Some (name, rows)"
  shows "\<exists>path temp_dir. locate_archive w = Inr (path, temp_dir) \<and>
           csv_file (analyse w path temp_dir) = Some (name, rows)"
proof (cases "locate_archive w")
  case (Inl stopped)
  with assms locate_archive_stopped [OF Inl] show ?thesis by (simp add: main_def)
next
  case (Inr found)
  with assms show ?thesis by (cases found) (simp add: main_def)
qed

lemma valid_line_iff: "valid_line l \<longleftrightarrow> (\<exists>c cs. l = c # cs \<and> isdigit c)"
  by (cases l) (simp_all add: valid_line_def)

lemma length_filter_mset:
  "length (filter P xs) = size (filter_mset P (mset xs))"
  by (metis mset_filter size_mset)

lemma count_lines_split:
  assumes "mset lines = mset ds + mset ns"
    and "\<forall>l\<in>set ds. valid_line l" and "\<forall>l\<in>set ns. \<not> valid_line l"
  shows "count_lines lines = int (length ds)"
proof -
  have "filter valid_line ds = ds" using assms(2) by simp
  moreover have "filter valid_line ns = []" using assms(3) by simp
  ultimately have "size (filter_mset valid_line (mset lines)) = length ds"
    unfolding assms(1) by (simp flip: mset_filter)
  then show ?thesis by (simp add: count_lines_def length_filter_mset)
qed

lemma generate_csv_row10:
  "generate_csv info = Inr rows \<Longrightarrow> rows ! 10 = [CStr ''Total Events'', CInt (info_lines info)]"
  by (auto simp: generate_csv_def Let_def split: sum.splits)

text \<open>
  C2. For a list made of the lines \<open>ds\<close>, which all begin with a digit, and the lines
  \<open>ns\<close>, none of which does, in any order, \<^verbatim>\<open>count_lines\<close> returns the number of the
  lines \<open>ds\<close>. In every run that writes a CSV file, the row \<^verbatim>\<open>Total Events\<close> holds
  \<^verbatim>\<open>count_lines\<close> of the lines that \<^verbatim>\<open>log show\<close> gave for the located archive.
\<close>

theorem count_lines_total_events:
  "(mset lines = mset ds + mset ns \<and> (\<forall>l\<in>set ds. valid_line l) \<and>
      (\<forall>l\<in>set ns. \<not> valid_line l) \<longrightarrow> count_lines lines = int (length ds)) \<and>
   (valid_line l \<longleftrightarrow> (\<exists>c cs. l = c # cs \<and> isdigit c)) \<and>
   (csv_file (main w) = Some (name, rows) \<longrightarrow>
      (\<exists>path temp_dir log_lines.
          locate_archive w = Inr (path, temp_dir) \<and> log_show w path = Inr log_lines \<and>
          rows ! 10 = [CStr ''Total Events'', CInt (count_lines log_lines)]))"
proof (intro conjI impI)
  assume "mset lines = mset ds + mset ns \<and> (\<forall>l\<in>set ds. valid_line l) \<and>
      (\<forall>l\<in>set ns. \<not> valid_line l)"
  then show "count_lines lines = int (length ds)" by (simp add: count_lines_split)
next
  show "valid_line l \<longleftrightarrow> (\<exists>c cs. l = c # cs \<and> isdigit c)" by (rule valid_line_iff)
next
  assume "csv_file (main w) = Some (name, rows)"
  from main_written [OF this] obtain path temp_dir
    where l: "locate_archive w = Inr (path, temp_dir)"
      and a: "csv_file (analyse w path temp_dir) = Some (name, rows)" by blast
  from analyse_written [OF a] obtain log_lines info
    where "log_show w path = Inr log_lines" "generate_csv info = Inr rows"
      "info_lines info = count_lines log_lines"
    by (metis info.select_convs(6))
  with l generate_csv_row10 show "\<exists>path temp_dir log_lines.
          locate_archive w = Inr (path, temp_dir) \<and> log_show w path = Inr log_lines \<and>
          rows ! 10 = [CStr ''Total Events'', CInt (count_lines log_lines)]"
    by metis
qed

theorem count_lines_total_events_witness:
  "count_lines demo_lines = 3 \<and>
   valid_line ''2024-01-01 00:00:00.000 host kernel[0]: boot'' \<and>
   \<not> valid_line ''     continuation of the line before'' \<and>
   csv_file (main demo_world) = Some (''log_report_20240102_120000.csv'', demo_rows) \<and>
   demo_rows ! 10 = [CStr ''Total Events'', CInt (count_lines demo_lines)]"
  using count_lines_total_events [of demo_lines
      "[''2024-01-01 00:00:00.000 host kernel[0]: boot'',
        ''2024-01-01 00:45:00.000 host sshd[71]: login'',
        ''2024-01-01 01:30:00.000 host kernel[0]: halt'']"
      "[''Timestamp                       (process)[PID]'',
        ''     continuation of the line before'']"
      "''2024-01-01 00:00:00.000 host kernel[0]: boot''"
      demo_world "''log_report_20240102_120000.csv''" demo_rows]
  by (simp add: demo_run demo_count demo_rows_def valid_line_def isdigit_def)

lemma filter_first:
  "P x \<Longrightarrow> \<forall>y\<in>set pre. \<not> P y \<Longrightarrow> filter P (pre @ x # post) = x # filter P post"
  by simp

lemma filter_last:
  "P x \<Longrightarrow> \<forall>y\<in>set post. \<not> P y \<Longrightarrow> filter P (pre @ x # post) = filter P pre @ [x]"
  by simp

text \<open>
  C4. \<^verbatim>\<open>get_time_range\<close> keeps the lines whose first character is a digit. When there
  is none it returns \<^verbatim>\<open>(None, None)\<close>; otherwise it returns the first such line of the
  list (no such line stands before it) and the last one (none stands after it), in that
  order.
\<close>

theorem get_time_range_first_last:
  "(valid_line l \<longleftrightarrow> (\<exists>c cs. l = c # cs \<and> isdigit c)) \<and>
   ((\<forall>l\<in>set lines. \<not> valid_line l) \<longrightarrow> get_time_range lines = (None, None)) \<and>
   ((\<exists>l\<in>set lines. valid_line l) \<longrightarrow>
      (\<exists>first final pre post pre' post'.
          get_time_range lines = (Some first, Some final) \<and>
          lines = pre @ first # post \<and> valid_line first \<and> (\<forall>l\<in>set pre. \<not> valid_line l) \<and>
          lines = pre' @ final # post' \<and> valid_line final \<and>
          (\<forall>l\<in>set post'. \<not> valid_line l)))"
proof (intro conjI impI)
  show "valid_line l \<longleftrightarrow> (\<exists>c cs. l = c # cs \<and> isdigit c)" by (rule valid_line_iff)
next
  assume "\<forall>l\<in>set lines. \<not> valid_line l"
  then have "filter valid_line lines = []" by simp
  then show "get_time_range lines = (None, None)" by (simp add: get_time_range_def)
next
  assume ex: "\<exists>l\<in>set lines. valid_line l"
  from split_list_first_prop [OF ex] obtain pre first post
    where f: "lines = pre @ first # post" "valid_line first" "\<forall>l\<in>set pre. \<not> valid_line l"
    by blast
  from split_list_last_prop [OF ex] obtain pre' final post'
    where l: "lines = pre' @ final # post'" "valid_line final" "\<forall>l\<in>set post'. \<not> valid_line l"
    by blast
  have "hd (filter valid_line lines) = first"
    using f(2,3) unfolding f(1) by simp
  moreover have "last (filter valid_line lines) = final"
    using l(2,3) unfolding l(1) by simp
  moreover have "filter valid_line lines \<noteq> []"
    using f(2) unfolding f(1) by simp
  ultimately have "get_time_range lines = (Some first, Some final)"
    by (simp add: get_time_range_def)
  with f l show "\<exists>first final pre post pre' post'.
          get_time_range lines = (Some first, Some final) \<and>
          lines = pre @ first # post \<and> valid_line first \<and> (\<forall>l\<in>set pre. \<not> valid_line l) \<and>
          lines = pre' @ final # post' \<and> valid_line final \<and>
          (\<forall>l\<in>set post'. \<not> valid_line l)"
    by blast
qed

theorem get_time_range_first_last_witness:
  "get_time_range demo_lines =
     (Some ''2024-01-01 00:00:00.000 host kernel[0]: boot'',
      Some ''2024-01-01 01:30:00.000 host kernel[0]: halt'') \<and>
   get_time_range [''Timestamp'', [], ''  x''] = (None, None) \<and>
   get_time_range [''a'', ''7 only'', ''b''] = (Some ''7 only'', Some ''7 only'')"
proof -
  have a: "get_time_range [''Timestamp'', [], ''  x''] = (None, None)"
    by (simp add: get_time_range_def valid_line_def isdigit_def)
  have b: "get_time_range [''a'', ''7 only'', ''b''] = (Some ''7 only'', Some ''7 only'')"
    by (simp add: get_time_range_def valid_line_def isdigit_def)
  show ?thesis
    using get_time_range_first_last [of "''7 only''" demo_lines]
      get_time_range_first_last [of "[]" "[''Timestamp'', [], ''  x'']"]
      get_time_range_first_last [of "''a''" "[''a'', ''7 only'', ''b'']"]
    by (simp add: demo_range a b)
qed

lemma get_time_range_cases:
  "(count_lines lines = 0 \<and> get_time_range lines = (None, None)) \<or>
   (0 < count_lines lines \<and>
      (\<exists>first final. get_time_range lines = (Some first, Some final) \<and> first \<noteq> [] \<and> final \<noteq> []))"
proof (cases "filter valid_line lines = []")
  case True
  then show ?thesis by (simp add: count_lines_def get_time_range_def)
next
  case False
  have "hd (filter valid_line lines) \<in> set (filter valid_line lines)"
    by (rule hd_in_set [OF False])
  moreover have "last (filter valid_line lines) \<in> set (filter valid_line lines)"
    by (rule last_in_set [OF False])
  ultimately have "valid_line (hd (filter valid_line lines))"
    "valid_line (last (filter valid_line lines))"
    by (simp_all only: set_filter mem_Collect_eq)
  then have "hd (filter valid_line lines) \<noteq> []" "last (filter valid_line lines) \<noteq> []"
    by (auto simp: valid_line_def)
  with False show ?thesis by (simp add: count_lines_def get_time_range_def Let_def)
qed

lemma analyse_no_timestamps:
  assumes "log_show w path = Inr lines" and "lines \<noteq> []"
  shows "(analyse w path temp_dir = abort [Error ''No valid timestamps found.'']) =
         (count_lines lines = 0)"
proof -
  from get_time_range_cases [of lines] show ?thesis
  proof
    assume "count_lines lines = 0 \<and> get_time_range lines = (None, None)"
    with assms show ?thesis
      by (simp add: analyse_def extract_log_output_Inr)
  next
    assume "0 < count_lines lines \<and>
      (\<exists>first final. get_time_range lines = (Some first, Some final) \<and> first \<noteq> [] \<and> final \<noteq> [])"
    then obtain first final where pos: "0 < count_lines lines"
      and r: "get_time_range lines = (Some first, Some final)" "first \<noteq> []" "final \<noteq> []"
      by blast
    have "csv_file (analyse w path temp_dir) \<noteq> None \<or> raised (analyse w path temp_dir) \<noteq> None"
      using assms r
      by (simp add: analyse_def extract_log_output_Inr Let_def crash_def
          split: sum.splits prod.splits option.splits)
    then have "analyse w path temp_dir \<noteq> abort [Error ''No valid timestamps found.'']"
      by (auto simp: abort_def)
    with pos show ?thesis by simp
  qed
qed

text \<open>
  C10. \<^verbatim>\<open>get_time_range\<close> returns a pair other than \<^verbatim>\<open>(None, None)\<close> exactly when
  \<^verbatim>\<open>count_lines\<close> is positive, and then both lines of the pair are strings that are
  not empty. So a run that got a rendering with at least one line ends with
  \<^verbatim>\<open>No valid timestamps found.\<close> exactly when the count of events is zero.
\<close>

theorem time_range_iff_count_positive:
  "(get_time_range lines \<noteq> (None, None)) = (0 < count_lines lines) \<and>
   (\<exists>first final. get_time_range lines = (Some first, Some final) \<and> first \<noteq> [] \<and> final \<noteq> [])
     = (0 < count_lines lines) \<and>
   0 \<le> count_lines lines \<and>
   (locate_archive w = Inr (path, temp_dir) \<and> log_show w path = Inr lines \<and> lines \<noteq> [] \<longrightarrow>
      (main w = abort [Error ''No valid timestamps found.'']) = (count_lines lines = 0))"
proof (intro conjI impI)
  show "(get_time_range lines \<noteq> (None, None)) = (0 < count_lines lines)"
    using get_time_range_cases [of lines] by auto
  show "(\<exists>first final. get_time_range lines = (Some first, Some final) \<and> first \<noteq> [] \<and> final \<noteq> [])
     = (0 < count_lines lines)"
    using get_time_range_cases [of lines] by auto
  show "0 \<le> count_lines lines" by (simp add: count_lines_def)
next
  assume "locate_archive w = Inr (path, temp_dir) \<and> log_show w path = Inr lines \<and> lines \<noteq> []"
  then show "(main w = abort [Error ''No valid timestamps found.'']) = (count_lines lines = 0)"
    by (simp add: main_def analyse_no_timestamps)
qed

definition silent_lines :: "string list" where
  "silent_lines = [''Timestamp                       (process)[PID]'', [], ''  no record'']"

theorem time_range_iff_count_positive_witness:
  "get_time_range demo_lines \<noteq> (None, None) \<and> 0 < count_lines demo_lines \<and>
   main demo_world \<noteq> abort [Error ''No valid timestamps found.''] \<and>
   get_time_range silent_lines = (None, None) \<and> count_lines silent_lines = 0 \<and>
   main (demo_world\<lparr>log_show := \<lambda>p. Inr silent_lines\<rparr>) =
     abort [Error ''No valid timestamps found.'']"
proof -
  have l: "locate_archive (demo_world\<lparr>log_show := \<lambda>p. Inr silent_lines\<rparr>) =
      Inr (''/tmp/system_logs.logarchive'', None)"
    by (simp add: locate_archive_def demo_world_def endswith_def)
  have c: "count_lines silent_lines = 0"
    by (simp add: count_lines_def silent_lines_def valid_line_def isdigit_def)
  have n: "silent_lines \<noteq> []" by (simp add: silent_lines_def)
  have d: "log_show demo_world ''/tmp/system_logs.logarchive'' = Inr demo_lines"
    "demo_lines \<noteq> []" by (simp_all add: demo_world_def demo_lines_def)
  show ?thesis
    using time_range_iff_count_positive [of demo_lines demo_world
        "''/tmp/system_logs.logarchive''" None]
      time_range_iff_count_positive [of silent_lines
        "demo_world\<lparr>log_show := \<lambda>p. Inr silent_lines\<rparr>" "''/tmp/system_logs.logarchive''" None]
    by (simp add: l c n d demo_locate demo_count)
qed

section \<open>Locating the archive\<close>

text \<open>
  The subdirectories that qualify, in the words of the specification: the name ends in
  the logarchive suffix and the marker subdirectory is there. \<open>logarchive_candidates\<close>
  lists them in the order of the walk.
\<close>

definition qualifies :: "world \<Rightarrow> string \<Rightarrow> string \<Rightarrow> bool" where
  "qualifies w rootdir d \<longleftrightarrow>
     endswith d ''.logarchive'' \<and> isdir w (os_path_join (os_path_join rootdir d) ''Persist'')"

definition logarchive_candidates :: "world \<Rightarrow> string \<Rightarrow> string list" where
  "logarchive_candidates w base_dir =
     concat (map (\<lambda>(rootdir, dirs, files).
                    map (os_path_join rootdir) (filter (qualifies w rootdir) dirs))
               (os_walk w base_dir))"

lemma find_in_dirs_eq:
  "find_in_dirs w rootdir dirs =
     (case map (os_path_join rootdir) (filter (qualifies w rootdir) dirs) of
        [] \<Rightarrow> None | p # _ \<Rightarrow> Some p)"
  by (induction dirs) (simp_all add: qualifies_def Let_def)

lemma find_in_walk_eq:
  "find_in_walk w walk =
     (case concat (map (\<lambda>(rootdir, dirs, files).
                          map (os_path_join rootdir) (filter (qualifies w rootdir) dirs)) walk) of
        [] \<Rightarrow> None | p # _ \<Rightarrow> Some p)"
proof (induction walk)
  case Nil
  then show ?case by simp
next
  case (Cons entry walk)
  obtain rootdir dirs files where e: "entry = (rootdir, dirs, files)" by (cases entry)
  show ?case
    by (cases "map (os_path_join rootdir) (filter (qualifies w rootdir) dirs)")
      (simp_all add: e Cons find_in_dirs_eq)
qed

lemma os_path_join_nonempty: "b \<noteq> [] \<Longrightarrow> os_path_join a b \<noteq> []"
  by (simp add: os_path_join_def)

lemma qualifies_nonempty: "qualifies w rootdir d \<Longrightarrow> d \<noteq> []"
  by (auto simp: qualifies_def endswith_def)

lemma candidates_nonempty: "p \<in> set (logarchive_candidates w base_dir) \<Longrightarrow> p \<noteq> []"
  by (auto simp: logarchive_candidates_def os_path_join_nonempty qualifies_nonempty)

lemma candidates_Nil_iff:
  "logarchive_candidates w base_dir = [] \<longleftrightarrow>
     (\<forall>(rootdir, dirs, files)\<in>set (os_walk w base_dir). \<forall>d\<in>set dirs. \<not> qualifies w rootdir d)"
  by (auto simp: logarchive_candidates_def filter_empty_conv)

text \<open>
  C8. \<^verbatim>\<open>find_logarchive_in_directory\<close> returns the first entry of the list of the
  subdirectories, in the order of the walk, whose name ends with \<^verbatim>\<open>.logarchive\<close> and
  which hold a directory \<^verbatim>\<open>Persist\<close>; it returns \<^verbatim>\<open>None\<close> exactly when there is no
  such subdirectory, and never the empty path. When it returns \<^verbatim>\<open>None\<close> for the
  directory a \<^verbatim>\<open>.tar.gz\<close> input was unpacked into, the run prints
  \<^verbatim>\<open>No .logarchive found in sysdiagnose.\<close> and stops there.
\<close>

theorem find_logarchive_first:
  "find_logarchive_in_directory w base_dir =
     (case logarchive_candidates w base_dir of [] \<Rightarrow> None | p # _ \<Rightarrow> Some p) \<and>
   (find_logarchive_in_directory w base_dir = None) =
     (\<forall>(rootdir, dirs, files)\<in>set (os_walk w base_dir).
        \<forall>d\<in>set dirs. \<not> (endswith d ''.logarchive'' \<and>
                             isdir w (os_path_join (os_path_join rootdir d) ''Persist''))) \<and>
   find_logarchive_in_directory w base_dir \<noteq> Some [] \<and>
   (endswith (argv_input w) ''.tar.gz'' \<and> extract_tar_gz w (argv_input w) = Inr temp_dir \<and>
    find_logarchive_in_directory w temp_dir = None \<longrightarrow>
      main w = abort [Error ''No .logarchive found in sysdiagnose.''] \<and>
      csv_file (main w) = None \<and> removed (main w) = None \<and> raised (main w) = None)"
proof (intro conjI impI)
  show eq: "find_logarchive_in_directory w base_dir =
     (case logarchive_candidates w base_dir of [] \<Rightarrow> None | p # _ \<Rightarrow> Some p)"
    by (simp add: find_logarchive_in_directory_def find_in_walk_eq logarchive_candidates_def)
  have "(find_logarchive_in_directory w base_dir = None) = (logarchive_candidates w base_dir = [])"
    by (simp add: eq split: list.splits)
  then show "(find_logarchive_in_directory w base_dir = None) =
     (\<forall>(rootdir, dirs, files)\<in>set (os_walk w base_dir).
        \<forall>d\<in>set dirs. \<not> (endswith d ''.logarchive'' \<and>
                             isdir w (os_path_join (os_path_join rootdir d) ''Persist'')))"
    by (simp add: candidates_Nil_iff qualifies_def)
  show "find_logarchive_in_directory w base_dir \<noteq> Some []"
    using candidates_nonempty [of "[]" w base_dir] by (auto simp: eq split: list.splits)
next
  assume a: "endswith (argv_input w) ''.tar.gz'' \<and> extract_tar_gz w (argv_input w) = Inr temp_dir \<and>
    find_logarchive_in_directory w temp_dir = None"
  then show m: "main w = abort [Error ''No .logarchive found in sysdiagnose.'']"
    by (simp add: main_def locate_archive_def)
  show "csv_file (main w) = None" "removed (main w) = None" "raised (main w) = None"
    by (simp_all add: m abort_def)
qed

definition bundle_world :: world where
  "bundle_world =
     demo_world
       \<lparr>argv_input := ''/tmp/sysdiagnose_2024.tar.gz'',
        extract_tar_gz := (\<lambda>p. Inr ''/tmp/sysdiag_extract_k3''),
        os_walk := (\<lambda>p. if p = ''/tmp/sysdiag_extract_k3''
                        then [(p, [''logs'', ''old.logarchive''], [''summary.txt'']),
                              (p @ ''/logs'', [], [''wifi.log'']),
                              (p @ ''/old.logarchive'', [], [''Info.plist''])]
                        else if p = ''/data''
                        then [(p, [''a.logarchive'', ''b.logarchive'', ''c''], []),
                              (p @ ''/a.logarchive'', [], []),
                              (p @ ''/b.logarchive'', [''Persist''], []),
                              (p @ ''/b.logarchive/Persist'', [], []),
                              (p @ ''/c'', [''d.logarchive''], []),
                              (p @ ''/c/d.logarchive'', [''Persist''], []),
                              (p @ ''/c/d.logarchive/Persist'', [], [])]
                        else []),
        isdir := (\<lambda>p. p = ''/data/b.logarchive/Persist'' \<or> p = ''/data/c/d.logarchive/Persist'')\<rparr>"

theorem find_logarchive_first_witness:
  "find_logarchive_in_directory bundle_world ''/data'' = Some ''/data/b.logarchive'' \<and>
   logarchive_candidates bundle_world ''/data'' = [''/data/b.logarchive'', ''/data/c/d.logarchive''] \<and>
   find_logarchive_in_directory bundle_world ''/tmp/sysdiag_extract_k3'' = None \<and>
   main bundle_world = abort [Error ''No .logarchive found in sysdiagnose.'']"
proof -
  have c: "logarchive_candidates bundle_world ''/data'' =
      [''/data/b.logarchive'', ''/data/c/d.logarchive'']"
    by (simp add: logarchive_candidates_def bundle_world_def qualifies_def endswith_def
        os_path_join_def)
  have n: "logarchive_candidates bundle_world ''/tmp/sysdiag_extract_k3'' = []"
    by (simp add: logarchive_candidates_def bundle_world_def qualifies_def endswith_def
        os_path_join_def)
  have a: "endswith (argv_input bundle_world) ''.tar.gz''"
    "extract_tar_gz bundle_world (argv_input bundle_world) = Inr ''/tmp/sysdiag_extract_k3''"
    by (simp_all add: bundle_world_def endswith_def)
  show ?thesis
    using find_logarchive_first [of bundle_world "''/data''" "''/tmp/sysdiag_extract_k3''"]
      find_logarchive_first [of bundle_world "''/tmp/sysdiag_extract_k3''"
        "''/tmp/sysdiag_extract_k3''"]
    by (simp add: c n a)
qed

section \<open>Runs that stop early\<close>

text \<open>
  C7. When the input path does not end with \<^verbatim>\<open>.tar.gz\<close>, is not a directory ending with
  \<^verbatim>\<open>.logarchive\<close>, and is not a directory at all, the run prints the invalid-input
  error and stops: no CSV file is written, nothing else happens.
\<close>

theorem invalid_input_aborts:
  assumes "\<not> endswith (argv_input w) ''.tar.gz''"
    and "\<not> (endswith (argv_input w) ''.logarchive'' \<and> isdir w (argv_input w))"
    and "\<not> isdir w (argv_input w)"
  shows "main w = abort [Error ''Invalid input: must be .logarchive, directory, or .tar.gz''] \<and>
         printed (main w) = [Error ''Invalid input: must be .logarchive, directory, or .tar.gz''] \<and>
         csv_file (main w) = None \<and> removed (main w) = None \<and> raised (main w) = None"
proof -
  have "main w = abort [Error ''Invalid input: must be .logarchive, directory, or .tar.gz'']"
    using assms by (simp add: main_def locate_archive_def)
  then show ?thesis by (simp add: abort_def)
qed

theorem invalid_input_aborts_witness:
  "\<not> endswith ''/tmp/notes.txt'' ''.tar.gz'' \<and>
   \<not> isdir (demo_world\<lparr>argv_input := ''/tmp/notes.txt''\<rparr>) ''/tmp/notes.txt'' \<and>
   main (demo_world\<lparr>argv_input := ''/tmp/notes.txt''\<rparr>) =
     abort [Error ''Invalid input: must be .logarchive, directory, or .tar.gz''] \<and>
   csv_file (main (demo_world\<lparr>argv_input := ''/tmp/notes.txt''\<rparr>)) = None"
proof -
  have a: "\<not> endswith ''/tmp/notes.txt'' ''.tar.gz''" by (simp add: endswith_def)
  have b: "\<not> isdir (demo_world\<lparr>argv_input := ''/tmp/notes.txt''\<rparr>) ''/tmp/notes.txt''"
    by (simp add: demo_world_def)
  show ?thesis
    using invalid_input_aborts [of "demo_world\<lparr>argv_input := ''/tmp/notes.txt''\<rparr>"] a b
    by simp
qed

text \<open>
  C6. When the archive is located and \<^verbatim>\<open>log show\<close> gives no line, or runs into its
  timeout (which \<^verbatim>\<open>extract_log_output\<close> prints and turns into the empty list), the run
  prints \<^verbatim>\<open>No valid log output returned.\<close> and stops without an exception: no CSV
  file is written and no directory is removed.
\<close>

theorem empty_output_aborts:
  assumes "locate_archive w = Inr (path, temp_dir)"
    and "log_show w path = Inr [] \<or> log_show w path = Inl TimeoutExpired"
  shows "snd (extract_log_output w path) = Inr [] \<and>
         main w = abort ((if log_show w path = Inl TimeoutExpired
                          then [Error (''Timeout while reading logarchive: '' @ path)] else [])
                         @ [Error ''No valid log output returned.'']) \<and>
         csv_file (main w) = None \<and> removed (main w) = None \<and> raised (main w) = None"
proof -
  from assms(2) have
    "extract_log_output w path =
       (if log_show w path = Inl TimeoutExpired
        then [Error (''Timeout while reading logarchive: '' @ path)] else [], Inr [])"
    by (auto simp: extract_log_output_Inr extract_log_output_timeout)
  then have e: "snd (extract_log_output w path) = Inr []"
    and "main w = abort ((if log_show w path = Inl TimeoutExpired
                          then [Error (''Timeout while reading logarchive: '' @ path)] else [])
                         @ [Error ''No valid log output returned.''])"
    using assms(1) by (simp_all add: main_def analyse_def)
  then show ?thesis by (simp add: abort_def)
qed

theorem empty_output_aborts_witness:
  "main (demo_world\<lparr>log_show := \<lambda>p. Inr []\<rparr>) = abort [Error ''No valid log output returned.''] \<and>
   main (demo_world\<lparr>log_show := \<lambda>p. Inl TimeoutExpired\<rparr>) =
     abort [Error ''Timeout while reading logarchive: /tmp/system_logs.logarchive'',
            Error ''No valid log output returned.''] \<and>
   csv_file (main (demo_world\<lparr>log_show := \<lambda>p. Inl TimeoutExpired\<rparr>)) = None"
proof -
  have l: "locate_archive (demo_world\<lparr>log_show := f\<rparr>) =
      Inr (''/tmp/system_logs.logarchive'', None)" for f
    by (simp add: locate_archive_def demo_world_def endswith_def)
  show ?thesis
    using empty_output_aborts [OF l [of "\<lambda>p. Inr []"]]
      empty_output_aborts [OF l [of "\<lambda>p. Inl TimeoutExpired"]]
    by simp
qed

section \<open>The report\<close>

lemma subsystem_rows_keys:
  "set subs \<subseteq> fst ` set d \<Longrightarrow>
   subsystem_rows d subs = Inr (map (\<lambda>sub. [CStr sub, CInt (the (map_of d sub))]) subs)"
proof (induction subs)
  case Nil
  then show ?case by simp
next
  case (Cons sub subs)
  then have "sub \<in> fst ` set d" by simp
  then obtain n where "map_of d sub = Some n"
    by (metis domD dom_map_of_conv_image_fst)
  with Cons show ?case by simp
qed

lemma mset_sorted_reverse: "mset (sorted_reverse key xs) = mset xs"
  by (simp add: sorted_reverse_def)

lemma set_sorted_reverse: "set (sorted_reverse key xs) = set xs"
  by (simp add: sorted_reverse_def)

lemma sorted_reverse_descending:
  "sorted_wrt (\<lambda>a b. key b \<le> key a) (sorted_reverse key xs)"
proof -
  have "sorted (map key (sort_key key (rev xs)))" by (rule sorted_sort_key)
  then have "sorted_wrt (\<lambda>a b. key a \<le> key b) (sort_key key (rev xs))"
    by (simp add: sorted_wrt_map)
  then show ?thesis
    by (simp add: sorted_reverse_def sorted_wrt_rev)
qed

lemma sorted_reverse_stable:
  "filter (\<lambda>x. key x = k) (sorted_reverse key xs) = filter (\<lambda>x. key x = k) xs"
  by (simp add: sorted_reverse_def rev_filter [symmetric] sort_key_stable)

lemma items_of_keys:
  "distinct (map fst d) \<Longrightarrow> map (\<lambda>sub. (sub, the (map_of d sub))) (map fst d) = d"
proof (induction d)
  case Nil
  then show ?case by simp
next
  case (Cons kv d)
  obtain k v where kv: "kv = (k, v)" by (cases kv)
  from Cons.prems have "k \<notin> fst ` set d" and dist: "distinct (map fst d)" by (simp_all add: kv)
  then have "map (\<lambda>sub. (sub, the (map_of ((k, v) # d) sub))) (map fst d) =
             map (\<lambda>sub. (sub, the (map_of d sub))) (map fst d)"
    by (intro map_cong) auto
  with Cons.IH [OF dist] show ?case by (simp add: kv)
qed

text \<open>The pairs of the subsystem table, in the order of its rows.\<close>

definition sorted_items :: "counter \<Rightarrow> (string \<times> int) list" where
  "sorted_items d =
     map (\<lambda>sub. (sub, the (map_of d sub))) (sorted_reverse (map_of d) (map fst d))"

lemma sorted_items_mset: "distinct (map fst d) \<Longrightarrow> mset (sorted_items d) = mset d"
proof -
  assume dist: "distinct (map fst d)"
  have "mset (sorted_items d) =
        image_mset (\<lambda>sub. (sub, the (map_of d sub))) (mset (sorted_reverse (map_of d) (map fst d)))"
    by (simp add: sorted_items_def)
  also have "\<dots> = mset (map (\<lambda>sub. (sub, the (map_of d sub))) (map fst d))"
    by (simp only: mset_sorted_reverse mset_map)
  also have "\<dots> = mset d" by (simp only: items_of_keys [OF dist])
  finally show ?thesis .
qed

lemma sorted_items_keys: "map fst (sorted_items d) = sorted_reverse (map_of d) (map fst d)"
  by (simp add: sorted_items_def comp_def)

lemma sorted_items_distinct: "distinct (map fst d) \<Longrightarrow> distinct (map fst (sorted_items d))"
  by (simp add: sorted_items_keys sorted_reverse_def)

lemma sorted_items_descending:
  "sorted_wrt (\<lambda>a b. snd b \<le> snd a) (sorted_items d)"
proof -
  have "sorted_wrt (\<lambda>a b. map_of d b \<le> map_of d a) (sorted_reverse (map_of d) (map fst d))"
    by (rule sorted_reverse_descending)
  then have "sorted_wrt (\<lambda>a b. the (map_of d b) \<le> the (map_of d a))
               (sorted_reverse (map_of d) (map fst d))"
  proof (rule sorted_wrt_mono_rel [rotated])
    fix a b
    assume "a \<in> set (sorted_reverse (map_of d) (map fst d))"
      "b \<in> set (sorted_reverse (map_of d) (map fst d))"
    then have "a \<in> fst ` set d" "b \<in> fst ` set d" by (simp_all add: set_sorted_reverse)
    then obtain x y where "map_of d a = Some x" "map_of d b = Some y"
      by (metis domD dom_map_of_conv_image_fst)
    moreover assume "map_of d b \<le> map_of d a"
    ultimately show "the (map_of d b) \<le> the (map_of d a)" by simp
  qed
  then show ?thesis by (simp add: sorted_items_def sorted_wrt_map)
qed

lemma generate_csv_rows:
  "generate_csv info =
     Inr ([[CStr ''Field'', CStr ''Value''],
           [CStr ''Logarchive Path'', CStr (info_path info)],
           [CStr ''Size (KB)'', CFloat (info_size info)],
           [CStr ''Size (MB)'', CFloat (py_round2 (fdiv (info_size info) 1024))],
           [CStr ''Size (GB)'', CFloat (py_round2 (fdiv (py_round2 (fdiv (info_size info) 1024)) 1024))],
           [CStr ''First Log Line'', CStr (info_start info)],
           [CStr ''Last Log Line'', CStr (info_end info)],
           [CStr ''TTL (min)'', CFloat (info_ttl info)],
           [CStr ''TTL (hours)'', CFloat (py_round2 (fdiv (info_ttl info) 60))],
           [CStr ''TTL (days)'', CFloat (py_round2 (fdiv (py_round2 (fdiv (info_ttl info) 60)) 24))],
           [CStr ''Total Events'', CInt (info_lines info)],
           [CStr ''Unique Subsystems'', CInt (int (length (info_subsystems info)))],
           [],
           [CStr ''Subsystem'', CStr ''Event Count'']]
          @ map (\<lambda>(sub, n). [CStr sub, CInt n]) (sorted_items (info_subsystems info)))"
proof -
  have "set (sorted_reverse (map_of (info_subsystems info)) (map fst (info_subsystems info)))
          \<subseteq> fst ` set (info_subsystems info)"
    by (simp add: set_sorted_reverse)
  from subsystem_rows_keys [OF this] show ?thesis
    by (simp add: generate_csv_def Let_def sorted_items_def comp_def)
qed

text \<open>
  C5. The rows of the CSV after the header \<^verbatim>\<open>Subsystem, Event Count\<close> are the pairs of
  the tally, each pair once (the rows are a permutation of the tally, with distinct
  subsystems), and the counts never rise from one row to the next.
\<close>

theorem subsystem_section_sorted:
  assumes "distinct (map fst (info_subsystems info))"
  shows "\<exists>rows items.
      generate_csv info = Inr rows \<and>
      rows ! 12 = [] \<and> rows ! 13 = [CStr ''Subsystem'', CStr ''Event Count''] \<and>
      drop 14 rows = map (\<lambda>(sub, n). [CStr sub, CInt n]) items \<and>
      mset items = mset (info_subsystems info) \<and> distinct (map fst items) \<and>
      sorted_wrt (\<lambda>a b. snd b \<le> snd a) items"
proof -
  define items where "items = sorted_items (info_subsystems info)"
  obtain rows where rows: "generate_csv info = Inr rows"
    and sep: "rows ! 12 = []" "rows ! 13 = [CStr ''Subsystem'', CStr ''Event Count'']"
    and tail: "drop 14 rows = map (\<lambda>(sub, n). [CStr sub, CInt n]) items"
    unfolding items_def using generate_csv_rows [of info] by simp
  moreover have "mset items = mset (info_subsystems info)" "distinct (map fst items)"
    "sorted_wrt (\<lambda>a b. snd b \<le> snd a) items"
    unfolding items_def using assms
    by (simp_all add: sorted_items_mset sorted_items_distinct sorted_items_descending)
  ultimately show ?thesis by blast
qed

theorem subsystem_section_sorted_witness:
  "distinct (map fst [(''PID'', 1 :: int), (''0'', 2), (''71'', 1)]) \<and>
   generate_csv \<lparr>info_path = ''/tmp/system_logs.logarchive'', info_size = 4,
       info_start = ''2024-01-01 00:00:00.000 host kernel[0]: boot'',
       info_end = ''2024-01-01 01:30:00.000 host kernel[0]: halt'',
       info_ttl = 0, info_lines = 3,
       info_subsystems = [(''PID'', 1), (''0'', 2), (''71'', 1)]\<rparr> = Inr demo_rows \<and>
   drop 14 demo_rows = [[CStr ''0'', CInt 2], [CStr ''PID'', CInt 1], [CStr ''71'', CInt 1]]"
  using subsystem_section_sorted [of "\<lparr>info_path = ''/tmp/system_logs.logarchive'', info_size = 4,
       info_start = ''2024-01-01 00:00:00.000 host kernel[0]: boot'',
       info_end = ''2024-01-01 01:30:00.000 host kernel[0]: halt'',
       info_ttl = 0, info_lines = 3,
       info_subsystems = [(''PID'', 1), (''0'', 2), (''71'', 1)]\<rparr>"]
  by (simp add: demo_csv) (simp add: demo_rows_def)

text \<open>
  The tally that \<^verbatim>\<open>main\<close> hands to \<^verbatim>\<open>generate_csv\<close> comes from \<^verbatim>\<open>count_subsystems\<close> and
  has each subsystem once, so every report that a run writes has its subsystem table
  sorted and complete.
\<close>

lemma main_subsystem_section:
  assumes "csv_file (main w) = Some (name, rows)"
  shows "\<exists>path temp_dir lines items.
      locate_archive w = Inr (path, temp_dir) \<and> log_show w path = Inr lines \<and>
      drop 14 rows = map (\<lambda>(sub, n). [CStr sub, CInt n]) items \<and>
      mset items = mset (count_subsystems lines) \<and>
      sorted_wrt (\<lambda>a b. snd b \<le> snd a) items"
proof -
  from main_written [OF assms] obtain path temp_dir
    where l: "locate_archive w = Inr (path, temp_dir)"
      and a: "csv_file (analyse w path temp_dir) = Some (name, rows)" by blast
  from analyse_written [OF a] obtain lines info
    where f: "log_show w path = Inr lines" "generate_csv info = Inr rows"
      "info_subsystems info = count_subsystems lines"
    by (metis info.select_convs(7))
  define items where "items = sorted_items (count_subsystems lines)"
  have d: "distinct (map fst (count_subsystems lines))"
    by (simp add: count_subsystems_def distinct_foldl_tally)
  from f(2) have "drop 14 rows = map (\<lambda>(sub, n). [CStr sub, CInt n]) items"
    unfolding generate_csv_rows items_def f(3) by auto
  moreover have "mset items = mset (count_subsystems lines)"
    unfolding items_def by (rule sorted_items_mset [OF d])
  moreover have "sorted_wrt (\<lambda>a b. snd b \<le> snd a) items"
    unfolding items_def by (rule sorted_items_descending)
  ultimately show ?thesis using l f(1) by blast
qed

text \<open>
  Modelled from the spec: the repository has no reader of its reports, so the reader of
  the round trip follows the layout of the specification's section 4.4. The rows before
  the first empty row are the table of scalar fields under its header row, the rows
  after it the table of subsystems under its header row; every row of either table has
  two cells, a key and a value, which the reader returns as pairs, in the order of the
  file. The reader works on the rows of cells handed to \<^verbatim>\<open>csv.writer\<close>, not on their
  text.
\<close>

definition read_report :: "cell list list \<Rightarrow> ((cell \<times> cell) list \<times> (cell \<times> cell) list) option" where
  "read_report rows =
     (case (takeWhile (\<lambda>r. r \<noteq> []) rows, dropWhile (\<lambda>r. r \<noteq> []) rows) of
        (header # scalars, [] # header' # subs) \<Rightarrow>
          if list_all (\<lambda>r. length r = 2) (scalars @ subs)
          then Some (map (\<lambda>r. (r ! 0, r ! 1)) scalars, map (\<lambda>r. (r ! 0, r ! 1)) subs)
          else None
      | _ \<Rightarrow> None)"

text \<open>The scalar fields of the report record behind \<^verbatim>\<open>info\<close>, as keys and values.\<close>

definition scalar_fields :: "info \<Rightarrow> (cell \<times> cell) list" where
  "scalar_fields info =
     [(CStr ''Logarchive Path'', CStr (info_path info)),
      (CStr ''Size (KB)'', CFloat (info_size info)),
      (CStr ''Size (MB)'', CFloat (py_round2 (fdiv (info_size info) 1024))),
      (CStr ''Size (GB)'', CFloat (py_round2 (fdiv (py_round2 (fdiv (info_size info) 1024)) 1024))),
      (CStr ''First Log Line'', CStr (info_start info)),
      (CStr ''Last Log Line'', CStr (info_end info)),
      (CStr ''TTL (min)'', CFloat (info_ttl info)),
      (CStr ''TTL (hours)'', CFloat (py_round2 (fdiv (info_ttl info) 60))),
      (CStr ''TTL (days)'', CFloat (py_round2 (fdiv (py_round2 (fdiv (info_ttl info) 60)) 24))),
      (CStr ''Total Events'', CInt (info_lines info)),
      (CStr ''Unique Subsystems'', CInt (int (length (info_subsystems info))))]"

definition subsystem_cells :: "string \<times> int \<Rightarrow> cell \<times> cell" where
  "subsystem_cells p = (CStr (fst p), CInt (snd p))"

lemma read_report_generate_csv:
  "\<exists>rows. generate_csv info = Inr rows \<and>
     read_report rows =
       Some (scalar_fields info, map subsystem_cells (sorted_items (info_subsystems info)))"
proof -
  show ?thesis
    unfolding generate_csv_rows [of info]
    by (simp add: read_report_def scalar_fields_def subsystem_cells_def [abs_def]
        split_def comp_def list_all_iff)
qed

lemma inj_subsystem_cells: "inj subsystem_cells"
  by (auto simp: inj_on_def subsystem_cells_def prod_eq_iff)

text \<open>
  C9. For a report record whose tally has each subsystem once, reading the rows that
  \<^verbatim>\<open>generate_csv\<close> writes gives back the scalar fields of the record (path, the three
  sizes, first and last line, the three TTL values, total events, number of subsystems)
  and a table of subsystems which, as a set of pairs, is the tally of the record. Hence
  two such records with the same rows agree in every scalar field and in the set of
  pairs of their tallies.
\<close>

theorem report_round_trip:
  assumes "distinct (map fst (info_subsystems info))"
  shows "(\<exists>rows subs.
            generate_csv info = Inr rows \<and>
            read_report rows = Some (scalar_fields info, subs) \<and>
            set subs = subsystem_cells ` set (info_subsystems info) \<and>
            length subs = length (info_subsystems info)) \<and>
         (distinct (map fst (info_subsystems info')) \<and> generate_csv info' = generate_csv info \<longrightarrow>
            info_path info' = info_path info \<and> info_size info' = info_size info \<and>
            info_start info' = info_start info \<and> info_end info' = info_end info \<and>
            info_ttl info' = info_ttl info \<and> info_lines info' = info_lines info \<and>
            set (info_subsystems info') = set (info_subsystems info))"
proof (intro conjI impI)
  have s: "set (sorted_items (info_subsystems i)) = set (info_subsystems i)"
    if "distinct (map fst (info_subsystems i))" for i
    using sorted_items_mset [OF that] by (metis set_mset_mset)
  have n: "length (sorted_items (info_subsystems i)) = length (info_subsystems i)" for i
    by (simp add: sorted_items_def sorted_reverse_def)
  from read_report_generate_csv [of info] obtain rows
    where r: "generate_csv info = Inr rows"
      "read_report rows =
         Some (scalar_fields info, map subsystem_cells (sorted_items (info_subsystems info)))"
    by blast
  with s [OF assms] n [of info] show "\<exists>rows subs.
            generate_csv info = Inr rows \<and>
            read_report rows = Some (scalar_fields info, subs) \<and>
            set subs = subsystem_cells ` set (info_subsystems info) \<and>
            length subs = length (info_subsystems info)"
    by (intro exI [of _ rows]
        exI [of _ "map subsystem_cells (sorted_items (info_subsystems info))"]) simp
  assume a: "distinct (map fst (info_subsystems info')) \<and> generate_csv info' = generate_csv info"
  from read_report_generate_csv [of info'] a r
  have f: "scalar_fields info' = scalar_fields info"
    and p: "map subsystem_cells (sorted_items (info_subsystems info')) =
            map subsystem_cells (sorted_items (info_subsystems info))"
    by auto
  from f show "info_path info' = info_path info" "info_size info' = info_size info"
    "info_start info' = info_start info" "info_end info' = info_end info"
    "info_ttl info' = info_ttl info" "info_lines info' = info_lines info"
    by (simp_all add: scalar_fields_def)
  from p have "sorted_items (info_subsystems info') = sorted_items (info_subsystems info)"
    using inj_subsystem_cells by (simp add: inj_map_eq_map)
  with s [OF assms] s [of info'] a
  show "set (info_subsystems info') = set (info_subsystems info)" by metis
qed

definition demo_info :: info where
  "demo_info =
     \<lparr>info_path = ''/tmp/system_logs.logarchive'', info_size = 4,
      info_start = ''2024-01-01 00:00:00.000 host kernel[0]: boot'',
      info_end = ''2024-01-01 01:30:00.000 host kernel[0]: halt'',
      info_ttl = 0, info_lines = 3,
      info_subsystems = [(''PID'', 1), (''0'', 2), (''71'', 1)]\<rparr>"

theorem report_round_trip_witness:
  "distinct (map fst (info_subsystems demo_info)) \<and>
   generate_csv demo_info = Inr demo_rows \<and>
   read_report demo_rows =
     Some (scalar_fields demo_info,
           [(CStr ''0'', CInt 2), (CStr ''PID'', CInt 1), (CStr ''71'', CInt 1)]) \<and>
   set [(CStr ''0'', CInt 2), (CStr ''PID'', CInt 1), (CStr ''71'', CInt 1)] =
     subsystem_cells ` set (info_subsystems demo_info)"
proof -
  have d: "distinct (map fst (info_subsystems demo_info))" by (simp add: demo_info_def)
  have g: "generate_csv demo_info = Inr demo_rows"
    unfolding demo_info_def by (rule demo_csv)
  have f: "scalar_fields demo_info = map (\<lambda>r. (r ! 0, r ! 1)) (take 11 (tl demo_rows))"
    by (simp add: scalar_fields_def demo_info_def demo_rows_def float_4_1024)
  have r: "read_report demo_rows =
     Some (scalar_fields demo_info,
           [(CStr ''0'', CInt 2), (CStr ''PID'', CInt 1), (CStr ''71'', CInt 1)])"
    unfolding f by (simp add: read_report_def demo_rows_def)
  show ?thesis
    using report_round_trip [OF d, of demo_info] d g r by auto
qed

section \<open>Rounding to a float\<close>

lemma pow2_powi: "pow2 k = 2 powi k"
  by (simp add: pow2_def power_int_def field_simps)

lemma pow2_pos [simp]: "0 < pow2 k"
  by (simp add: pow2_powi)

lemma pow2_Suc: "pow2 (k + 1) = 2 * pow2 k"
  by (simp add: pow2_powi power_int_add)

lemma pow2_nat: "pow2 (int n) = 2 ^ n"
  by (simp add: pow2_def)

lemma pow2_neg_nat: "pow2 (- int n) = 1 / 2 ^ n"
  by (simp add: pow2_powi power_int_minus field_simps)

lemma bit_length_bounds: "0 < n \<Longrightarrow> 2 ^ (bit_length n - 1) \<le> n \<and> n < 2 ^ bit_length n"
proof (induction n rule: bit_length.induct)
  case (1 n)
  show ?case
  proof (cases "n div 2 = 0")
    case True
    with "1.prems" have "n = 1" by (simp add: div_eq_0_iff)
    then show ?thesis by simp
  next
    case False
    then have pos: "0 < n div 2" by simp
    with "1.prems" "1.IH" have ih: "2 ^ (bit_length (n div 2) - 1) \<le> n div 2"
      "n div 2 < 2 ^ bit_length (n div 2)" by simp_all
    from pos have bl: "0 < bit_length (n div 2)" by (simp add: bit_length.simps [of "n div 2"])
    have "bit_length n = Suc (bit_length (n div 2))"
      using "1.prems" by (simp add: bit_length.simps [of n])
    moreover have "2 * 2 ^ (bit_length (n div 2) - 1) \<le> n" using ih(1) by linarith
    moreover have "2 * 2 ^ (bit_length (n div 2) - 1) = (2::nat) ^ bit_length (n div 2)"
      using bl by (cases "bit_length (n div 2)") simp_all
    moreover have "n < 2 * 2 ^ bit_length (n div 2)" using ih(2) by linarith
    ultimately show ?thesis by simp
  qed
qed

lemma bit_length_bounds_real:
  assumes "0 < n"
  shows "2 ^ (bit_length n - 1) \<le> real n" "real n + 1 \<le> 2 ^ bit_length n"
proof -
  from bit_length_bounds [OF assms]
  have "2 ^ (bit_length n - 1) \<le> n" "n + 1 \<le> 2 ^ bit_length n" by simp_all
  then have "real (2 ^ (bit_length n - 1)) \<le> real n" "real (n + 1) \<le> real (2 ^ bit_length n)"
    by (simp_all only: of_nat_le_iff)
  then show "2 ^ (bit_length n - 1) \<le> real n" "real n + 1 \<le> 2 ^ bit_length n"
    by (simp_all del: bit_length.simps)
qed

lemma nat_floor_bounds:
  assumes "1 \<le> (y::real)"
  shows "0 < nat \<lfloor>y\<rfloor>" "real (nat \<lfloor>y\<rfloor>) \<le> y" "y < real (nat \<lfloor>y\<rfloor>) + 1"
proof -
  from assms have f: "1 \<le> \<lfloor>y\<rfloor>" by linarith
  then show "0 < nat \<lfloor>y\<rfloor>" by simp
  from f have "real (nat \<lfloor>y\<rfloor>) = of_int \<lfloor>y\<rfloor>" by simp
  then show "real (nat \<lfloor>y\<rfloor>) \<le> y" "y < real (nat \<lfloor>y\<rfloor>) + 1"
    by linarith+
qed

lemma ilog2_bounds:
  assumes "x \<noteq> 0"
  shows "pow2 (ilog2 x) \<le> \<bar>x\<bar> \<and> \<bar>x\<bar> < pow2 (ilog2 x + 1)"
proof (cases "1 \<le> \<bar>x\<bar>")
  case True
  define n where "n = nat \<lfloor>\<bar>x\<bar>\<rfloor>"
  have n: "0 < n" "real n \<le> \<bar>x\<bar>" "\<bar>x\<bar> < real n + 1"
    unfolding n_def by (rule nat_floor_bounds [OF True])+
  note b = bit_length_bounds_real [OF n(1)]
  have bl: "0 < bit_length n" using n(1) by (simp add: bit_length.simps [of n])
  have e: "ilog2 x = int (bit_length n - 1)"
    using True bl by (simp add: ilog2_def n_def [symmetric] Let_def)
  have "int (bit_length n - 1) + 1 = int (bit_length n)" using bl by simp
  then have "pow2 (ilog2 x + 1) = 2 ^ bit_length n" by (simp only: e pow2_nat)
  moreover have "pow2 (ilog2 x) = 2 ^ (bit_length n - 1)" by (simp only: e pow2_nat)
  ultimately show ?thesis
    using n(2,3) b by linarith
next
  case False
  define a where "a = \<bar>x\<bar>"
  have a: "0 < a" "a < 1" using assms False by (simp_all add: a_def)
  define n where "n = nat \<lfloor>1 / a\<rfloor>"
  have "1 \<le> 1 / a" using a by simp
  then have n: "0 < n" "real n \<le> 1 / a" "1 / a < real n + 1"
    unfolding n_def by (rule nat_floor_bounds)+
  define k where "k = bit_length n - 1"
  have bl: "bit_length n = Suc k" using n(1) by (simp add: k_def bit_length.simps [of n])
  from bit_length_bounds_real [OF n(1)]
  have b: "(2::real) ^ k \<le> real n" "real n + 1 \<le> 2 ^ Suc k"
    unfolding bl by simp_all
  have up: "a \<le> 1 / 2 ^ k"
  proof -
    have "2 ^ k \<le> 1 / a" using b(1) n(2) by linarith
    then have "a * 2 ^ k \<le> 1" using a(1) by (simp add: field_simps)
    then show ?thesis by (simp add: field_simps)
  qed
  have lo: "1 / 2 ^ Suc k < a"
  proof -
    have "1 / a < 2 ^ Suc k" using b(2) n(3) by linarith
    then have "1 < a * 2 ^ Suc k" using a(1) by (simp add: field_simps)
    then show ?thesis by (simp add: field_simps)
  qed
  have "ilog2 x = (if pow2 (- (int (bit_length n) - 1)) \<le> a
                   then - (int (bit_length n) - 1) else - (int (bit_length n) - 1) - 1)"
    unfolding ilog2_def Let_def a_def n_def using False by (simp only: if_False)
  then have e: "ilog2 x = (if pow2 (- int k) \<le> a then - int k else - int k - 1)"
    unfolding bl by simp
  have s: "- int k - 1 = - int (Suc k)" "- int k - 1 + 1 = - int k" by simp_all
  show ?thesis
  proof (cases "pow2 (- int k) \<le> a")
    case True
    have "pow2 (- int k + 1) = 2 * (1 / 2 ^ k)" by (simp only: pow2_Suc pow2_neg_nat)
    moreover have "0 < (1::real) / 2 ^ k" by simp
    ultimately have "a < pow2 (- int k + 1)" using up by linarith
    with True show ?thesis by (simp add: e a_def)
  next
    case False
    then have "a < pow2 (- int k)" by simp
    moreover have "pow2 (- int (Suc k)) \<le> a" using lo by (simp only: pow2_neg_nat)
    ultimately show ?thesis using False by (simp only: e if_False s a_def) simp
  qed
qed

lemma round_half_even_near: "\<bar>of_int (round_half_even q) - q\<bar> \<le> 1 / 2"
  by (simp add: round_half_even_def Let_def; linarith?)

lemma round_half_even_mono_int: "of_int m \<le> q \<Longrightarrow> m \<le> round_half_even q"
  by (simp add: round_half_even_def Let_def; linarith?)

lemma round_half_even_le_int: "q \<le> of_int m \<Longrightarrow> round_half_even q \<le> m"
  by (simp add: round_half_even_def Let_def; linarith?)

text \<open>
  \<open>fl x\<close> is a number with a significand of at most 53 bits at the exponent of \<open>x\<close>, and
  no further from \<open>x\<close> than half a unit in the last place.
\<close>

lemma fl_nearest:
  assumes "x \<noteq> 0"
  shows "\<exists>m. fl x = of_int m * pow2 (ilog2 x - 52) \<and> 2 ^ 52 \<le> \<bar>m\<bar> \<and> \<bar>m\<bar> \<le> 2 ^ 53 \<and>
             \<bar>fl x - x\<bar> \<le> pow2 (ilog2 x - 52) / 2"
proof -
  define u where "u = pow2 (ilog2 x - 52)"
  define m where "m = round_half_even (x / u)"
  have u: "0 < u" by (simp add: u_def)
  have f: "fl x = of_int m * u" using assms by (simp add: fl_def u_def m_def Let_def)
  have p: "pow2 (ilog2 x) = 2 ^ 52 * u" "pow2 (ilog2 x + 1) = 2 ^ 53 * u"
    by (simp_all add: u_def pow2_powi power_int_diff power_int_add)
  from ilog2_bounds [OF assms] have "2 ^ 52 * u \<le> \<bar>x\<bar>" "\<bar>x\<bar> < 2 ^ 53 * u"
    unfolding p by simp_all
  then have b: "2 ^ 52 \<le> \<bar>x / u\<bar>" "\<bar>x / u\<bar> < 2 ^ 53"
    using u by (simp_all add: field_simps)
  have near: "\<bar>of_int m - x / u\<bar> \<le> 1 / 2" unfolding m_def by (rule round_half_even_near)
  have "\<bar>fl x - x\<bar> = \<bar>of_int m - x / u\<bar> * u"
    using u by (simp add: f abs_mult [symmetric] field_simps)
  with near u have d: "\<bar>fl x - x\<bar> \<le> u / 2"
    by (metis mult_right_mono less_imp_le times_divide_eq_left mult_1)
  have "2 ^ 52 \<le> \<bar>m\<bar> \<and> \<bar>m\<bar> \<le> 2 ^ 53"
  proof (cases "0 \<le> x / u")
    case True
    with b have "of_int (2 ^ 52) \<le> x / u" "x / u \<le> of_int (2 ^ 53)" by simp_all
    then have "2 ^ 52 \<le> m" "m \<le> 2 ^ 53"
      unfolding m_def by (simp_all only: round_half_even_mono_int round_half_even_le_int)
    then show ?thesis by simp
  next
    case False
    with b have "x / u \<le> of_int (- (2 ^ 52))" "of_int (- (2 ^ 53)) \<le> x / u" by simp_all
    then have "m \<le> - (2 ^ 52)" "- (2 ^ 53) \<le> m"
      unfolding m_def by (simp_all only: round_half_even_mono_int round_half_even_le_int)
    then show ?thesis by simp
  qed
  with f d show ?thesis unfolding u_def by blast
qed

section \<open>Time to live\<close>

lemma first_token_prefix:
  assumes "tok \<noteq> []" and "\<forall>c\<in>set tok. \<not> isspace c" and "isspace s"
  shows "first_token (tok @ s # r) = Inr tok"
proof -
  obtain c cs where tok: "tok = c # cs" using assms(1) by (cases tok) auto
  with assms(2) have c: "\<not> isspace c" by simp
  have "takeWhile (\<lambda>x. \<not> isspace x) (tok @ s # r) = tok"
    using assms(2,3) by (simp add: takeWhile_append2)
  with c show ?thesis by (simp add: first_token_def tok)
qed

lemma first_token_date: "first_token (''2024-01-01 '' @ r) = Inr ''2024-01-01''"
  using first_token_prefix [of "''2024-01-01''" "CHR '' ''" r]
  by (simp add: isspace_def)

lemma dt_sub_same: "dt_sub t t = Inr delta \<Longrightarrow> delta = 0"
  by (auto simp: dt_sub_def split: option.splits)

text \<open>
  The three TTL rows of every report that is written: the minutes are the difference
  of the two parsed timestamps in seconds, divided by 60 and rounded to two decimals;
  the hours are the minutes divided by 60 and rounded, the days the hours divided by 24
  and rounded. The timestamps parsed are those of the first white space delimited token
  of the last and of the first line of the time range.
\<close>

lemma ttl_rows:
  assumes "csv_file (main w) = Some (name, rows)"
  shows "\<exists>path temp_dir lines start_line end_line start_text end_text m1 m2
            start_time end_time delta ttl.
      locate_archive w = Inr (path, temp_dir) \<and> log_show w path = Inr lines \<and>
      get_time_range lines = (Some start_line, Some end_line) \<and>
      first_token end_line = Inr end_text \<and> parse_time w end_text = (m1, Inr end_time) \<and>
      first_token start_line = Inr start_text \<and> parse_time w start_text = (m2, Inr start_time) \<and>
      dt_sub end_time start_time = Inr delta \<and>
      ttl = py_round2 (fdiv (total_seconds delta) 60) \<and>
      rows ! 7 = [CStr ''TTL (min)'', CFloat ttl] \<and>
      rows ! 8 = [CStr ''TTL (hours)'', CFloat (py_round2 (fdiv ttl 60))] \<and>
      rows ! 9 = [CStr ''TTL (days)'', CFloat (py_round2 (fdiv (py_round2 (fdiv ttl 60)) 24))]"
proof -
  from main_written [OF assms] obtain path temp_dir
    where l: "locate_archive w = Inr (path, temp_dir)"
      and a: "csv_file (analyse w path temp_dir) = Some (name, rows)" by blast
  from analyse_written [OF a] obtain lines start_line end_line end_text start_text
      end_time start_time delta m1 m2
    where f: "log_show w path = Inr lines"
      "get_time_range lines = (Some start_line, Some end_line)"
      "first_token end_line = Inr end_text" "parse_time w end_text = (m1, Inr end_time)"
      "first_token start_line = Inr start_text" "parse_time w start_text = (m2, Inr start_time)"
      "dt_sub end_time start_time = Inr delta"
      and g: "generate_csv \<lparr>info_path = path, info_size = get_dir_size_kb w path,
         info_start = start_line, info_end = end_line,
         info_ttl = py_round2 (fdiv (total_seconds delta) 60),
         info_lines = count_lines lines,
         info_subsystems = count_subsystems lines\<rparr> = Inr rows"
    by blast
  from g have "rows ! 7 = [CStr ''TTL (min)'', CFloat (py_round2 (fdiv (total_seconds delta) 60))]"
    "rows ! 8 = [CStr ''TTL (hours)'',
                 CFloat (py_round2 (fdiv (py_round2 (fdiv (total_seconds delta) 60)) 60))]"
    "rows ! 9 = [CStr ''TTL (days)'',
                 CFloat (py_round2 (fdiv (py_round2
                    (fdiv (py_round2 (fdiv (total_seconds delta) 60)) 60)) 24))]"
    unfolding generate_csv_rows by auto
  with l f show ?thesis by blast
qed

text \<open>
  The arithmetic on a difference of one hour and a half: 90.0 minutes, 1.5 hours and the
  float nearest to 0.06 days (0.0625 is a tie between 0.06 and 0.07, rounded to the even
  digit).
\<close>

lemma ttl_of_ninety_minutes:
  "py_round2 (fdiv (total_seconds 5400000000) 60) = 90"
  "py_round2 (fdiv 90 60) = 3 / 2"
  "py_round2 (fdiv (3 / 2) 24) = 1080863910568919 / 2 ^ 54"
  "\<bar>1080863910568919 / 2 ^ 54 - 6 / 100 :: real\<bar> < 1 / 2 ^ 58"
     apply (simp add: total_seconds_def int_truediv_def py_round2_def fdiv_def fl_def ilog2_def
      pow2_def round_half_even_def Let_def)
    apply (simp add: py_round2_def fdiv_def fl_def ilog2_def pow2_def round_half_even_def Let_def)
   apply (simp add: py_round2_def fdiv_def fl_def ilog2_def pow2_def round_half_even_def Let_def)
  apply simp
  done

text \<open>
  C3. The specification expects 90.0 minutes, 1.5 hours and 0.06 days for a first line
  stamped \<^verbatim>\<open>2024-01-01 00:00:00.000\<close> and a last line stamped
  \<^verbatim>\<open>2024-01-01 01:30:00.000\<close>. On every rendering whose time range is such a pair of
  lines, \<^verbatim>\<open>main\<close> hands \<^verbatim>\<open>parse_time\<close> the first token of each line, which is the
  date \<^verbatim>\<open>2024-01-01\<close> without the time of day, for both lines alike: a report that is
  written has 0.0 in its three TTL rows.
\<close>

theorem ttl_ignores_time_of_day:
  assumes "locate_archive w = Inr (path, temp_dir)"
    and "log_show w path = Inr lines"
    and "get_time_range lines =
           (Some (''2024-01-01 00:00:00.000'' @ r1), Some (''2024-01-01 01:30:00.000'' @ r2))"
    and "csv_file (main w) = Some (name, rows)"
  shows "first_token (''2024-01-01 00:00:00.000'' @ r1) = Inr ''2024-01-01'' \<and>
         first_token (''2024-01-01 01:30:00.000'' @ r2) = Inr ''2024-01-01'' \<and>
         rows ! 7 = [CStr ''TTL (min)'', CFloat 0] \<and>
         rows ! 8 = [CStr ''TTL (hours)'', CFloat 0] \<and>
         rows ! 9 = [CStr ''TTL (days)'', CFloat 0]"
proof -
  have t1: "first_token (''2024-01-01 00:00:00.000'' @ r1) = Inr ''2024-01-01''"
    using first_token_date [of "''00:00:00.000'' @ r1"] by simp
  have t2: "first_token (''2024-01-01 01:30:00.000'' @ r2) = Inr ''2024-01-01''"
    using first_token_date [of "''01:30:00.000'' @ r2"] by simp
  from ttl_rows [OF assms(4)] obtain path' temp_dir' lines' start_line end_line start_text
      end_text m1 m2 start_time end_time delta ttl
    where l: "locate_archive w = Inr (path', temp_dir')" "log_show w path' = Inr lines'"
      "get_time_range lines' = (Some start_line, Some end_line)"
      and p: "first_token end_line = Inr end_text" "parse_time w end_text = (m1, Inr end_time)"
      "first_token start_line = Inr start_text" "parse_time w start_text = (m2, Inr start_time)"
      "dt_sub end_time start_time = Inr delta"
      and r: "ttl = py_round2 (fdiv (total_seconds delta) 60)"
      "rows ! 7 = [CStr ''TTL (min)'', CFloat ttl]"
      "rows ! 8 = [CStr ''TTL (hours)'', CFloat (py_round2 (fdiv ttl 60))]"
      "rows ! 9 = [CStr ''TTL (days)'', CFloat (py_round2 (fdiv (py_round2 (fdiv ttl 60)) 24))]"
    by blast
  from l assms(1,2,3) have "start_line = ''2024-01-01 00:00:00.000'' @ r1"
    "end_line = ''2024-01-01 01:30:00.000'' @ r2" by simp_all
  with p t1 t2 have "start_text = ''2024-01-01''" "end_text = ''2024-01-01''" by simp_all
  with p have "end_time = start_time" by simp
  with p(5) have "delta = 0" by (simp add: dt_sub_same)
  with r have "ttl = 0" by simp
  with r t1 t2 show ?thesis by simp
qed

theorem ttl_ignores_time_of_day_witness:
  "locate_archive demo_world = Inr (''/tmp/system_logs.logarchive'', None) \<and>
   log_show demo_world ''/tmp/system_logs.logarchive'' = Inr demo_lines \<and>
   get_time_range demo_lines =
     (Some ''2024-01-01 00:00:00.000 host kernel[0]: boot'',
      Some ''2024-01-01 01:30:00.000 host kernel[0]: halt'') \<and>
   csv_file (main demo_world) = Some (''log_report_20240102_120000.csv'', demo_rows) \<and>
   demo_rows ! 7 = [CStr ''TTL (min)'', CFloat 0] \<and>
   demo_rows ! 8 = [CStr ''TTL (hours)'', CFloat 0] \<and>
   demo_rows ! 9 = [CStr ''TTL (days)'', CFloat 0]"
proof -
  have s: "log_show demo_world ''/tmp/system_logs.logarchive'' = Inr demo_lines"
    by (simp add: demo_world_def)
  have g: "get_time_range demo_lines =
     (Some (''2024-01-01 00:00:00.000'' @ '' host kernel[0]: boot''),
      Some (''2024-01-01 01:30:00.000'' @ '' host kernel[0]: halt''))"
    by (simp add: demo_range)
  have c: "csv_file (main demo_world) = Some (''log_report_20240102_120000.csv'', demo_rows)"
    by (simp add: demo_run)
  from ttl_ignores_time_of_day [OF demo_locate s g c] demo_locate s demo_range c
  show ?thesis by simp
qed

end
